theory Spec2Isabelle
  imports Main
begin

section \<open>AJE database setup: loading a flat spreadsheet into a relational schema\<close>

text \<open>
  A shallow embedding of \<^verbatim>\<open>database_setup.py\<close>. The script reads one wide sheet
  into a pandas DataFrame, derives one DataFrame per target table
  (\<^verbatim>\<open>extract_table_data\<close>), appends each to its table of the store in a fixed order
  (\<^verbatim>\<open>load_data_to_database\<close>) and counts the rows of the main tables afterwards
  (\<^verbatim>\<open>validate_data_integrity\<close>).
\<close>

subsection \<open>The fixed table lists and the schema\<close>

text \<open>The list \<^verbatim>\<open>load_order\<close> of \<^verbatim>\<open>load_data_to_database\<close>.\<close>

definition load_order :: "string list" where
  "load_order =
     [''tipo_documento'', ''canal_cliente'', ''tipo_pago'', ''cargo_trabajador'',
      ''marca_producto'', ''categoria_producto'', ''trabajador'', ''cliente'',
      ''producto'', ''pedido'', ''detalle_pedido'']"

text \<open>The list \<^verbatim>\<open>tables_to_check\<close> of \<^verbatim>\<open>validate_data_integrity\<close>.\<close>

definition tables_to_check :: "string list" where
  "tables_to_check =
     [''G2.cliente'', ''G2.trabajador'', ''G2.producto'', ''G2.pedido'',
      ''G2.detalle_pedido'']"

text \<open>
  The foreign keys of the DDL in \<^verbatim>\<open>schema_sql\<close>, in the order of the
  \<^verbatim>\<open>CREATE TABLE\<close> statements: each table with its
  \<^verbatim>\<open>FOREIGN KEY (column) REFERENCES G2.table\<close> clauses as pairs of column and
  referenced table.
\<close>

definition schema_sql :: "(string \<times> (string \<times> string) list) list" where
  "schema_sql =
     [(''tipo_documento'', []),
      (''canal_cliente'', []),
      (''tipo_pago'', []),
      (''cargo_trabajador'', []),
      (''marca_producto'', []),
      (''categoria_producto'', []),
      (''formato_producto'', []),
      (''trabajador'', [(''id_cargo_trabajador'', ''cargo_trabajador'')]),
      (''cliente'', [(''id_tipo_documento'', ''tipo_documento''),
                     (''id_canal_cliente'', ''canal_cliente'')]),
      (''producto'', [(''id_marca_producto'', ''marca_producto''),
                      (''id_categoria_producto'', ''categoria_producto''),
                      (''id_formato_producto'', ''formato_producto'')]),
      (''tipo_promocion'', []),
      (''promocion'', [(''id_tipo_promocion'', ''tipo_promocion'')]),
      (''pedido'', [(''id_trabajador'', ''trabajador''),
                    (''id_cliente'', ''cliente''),
                    (''id_tipo_pago'', ''tipo_pago'')]),
      (''detalle_pedido'', [(''id_pedido'', ''pedido''),
                            (''id_producto'', ''producto''),
                            (''id_promocion'', ''promocion'')])]"

text \<open>The tables a table references through its foreign keys.\<close>

definition references :: "(string \<times> (string \<times> string) list) list \<Rightarrow> string \<Rightarrow> string list" where
  "references schema t = (case map_of schema t of None \<Rightarrow> [] | Some fks \<Rightarrow> map snd fks)"

text \<open>\<open>r\<close> is loaded before \<open>t\<close>: it occurs in the order in front of the first \<open>t\<close>.\<close>

definition loaded_before :: "string list \<Rightarrow> string \<Rightarrow> string \<Rightarrow> bool" where
  "loaded_before order r t \<longleftrightarrow> r \<in> set (takeWhile (\<lambda>x. x \<noteq> t) order)"

text \<open>
  An order places every table after the tables it references: the property of a
  topological sort that the loader relies on.
\<close>

definition after_all_references ::
  "(string \<times> (string \<times> string) list) list \<Rightarrow> string list \<Rightarrow> bool" where
  "after_all_references schema order \<longleftrightarrow>
     list_all (\<lambda>t. list_all (\<lambda>r. loaded_before order r t) (references schema t)) order"

text \<open>The same, asked only of the references that point at a table of the order.\<close>

definition after_loaded_references ::
  "(string \<times> (string \<times> string) list) list \<Rightarrow> string list \<Rightarrow> bool" where
  "after_loaded_references schema order \<longleftrightarrow>
     list_all (\<lambda>t. list_all (\<lambda>r. loaded_before order r t)
                     (filter (\<lambda>r. r \<in> set order) (references schema t))) order"

text \<open>The references of the tables of an order that leave the order.\<close>

definition unloaded_references ::
  "(string \<times> (string \<times> string) list) list \<Rightarrow> string list \<Rightarrow> (string \<times> string) list" where
  "unloaded_references schema order =
     concat (map (\<lambda>t. map (\<lambda>r. (t, r)) (filter (\<lambda>r. r \<notin> set order) (references schema t))) order)"

text \<open>The schema-qualified name under which the validator queries a table.\<close>

definition g2_name :: "string \<Rightarrow> string" where
  "g2_name t = ''G2.'' @ t"

subsection \<open>DataFrames\<close>

text \<open>  A cell of a DataFrame: \<open>NaN\<close> is pandas' missing value (an empty spreadsheet cell),
  \<open>Num\<close> and \<open>Str\<close> are the integers and strings the script itself writes (\<^verbatim>\<open>0\<close>,
  \<^verbatim>\<open>''\<close>), \<open>Obj\<close> is any other value read from the sheet. Equality of cells stands
  for the equality pandas deduplicates by: values that Python holds equal are one cell
  (\<^verbatim>\<open>1\<close>, \<^verbatim>\<open>1.0\<close> and \<^verbatim>\<open>True\<close> are all \<open>Num 1\<close>), so \<open>Obj\<close> holds only
  values equal to no integer and no string.\<close>

datatype 'v cell = NaN | Num int | Str string | Obj 'v

text \<open>  A DataFrame: its column labels and its rows, each row with its index label and one cell
  per column. A frame read by \<^verbatim>\<open>pd.read_excel\<close> has the labels \<open>0, 1, 2, ...\<close>;
  the frames derived from it keep the labels of the rows they keep.\<close>

record 'v frame =
  columns :: "string list"
  rows :: "(nat \<times> 'v cell list) list"

text \<open>A Series (one column of a frame): the index labels with their values.\<close>

type_synonym 'v series = "(nat \<times> 'v cell) list"

text \<open>  The exceptions of the model: pandas' \<^verbatim>\<open>KeyError\<close> (with the labels not found) and
  \<^verbatim>\<open>ValueError\<close>, and any exception of the database driver.\<close>

datatype error = KeyError "string list" | ValueError string | DBError string

text \<open>\<^verbatim>\<open>len(df)\<close>: the number of rows.\<close>

definition len :: "'v frame \<Rightarrow> nat" where
  "len f = length (rows f)"

text \<open>  The position of a label among the column labels (the first one, should a label repeat)
  and the cell of a row there. A row too short for the position reads as missing.\<close>

fun pos :: "'a \<Rightarrow> 'a list \<Rightarrow> nat" where
  "pos c [] = 0"
| "pos c (x # xs) = (if x = c then 0 else Suc (pos c xs))"

definition cell_at :: "'v cell list \<Rightarrow> nat \<Rightarrow> 'v cell" where
  "cell_at r i = (if i < length r then r ! i else NaN)"

definition value_at :: "string list \<Rightarrow> string \<Rightarrow> 'v cell list \<Rightarrow> 'v cell" where
  "value_at cs c r = cell_at r (pos c cs)"

text \<open>The labels of \<open>cs\<close> that are not columns of the frame.\<close>

definition missing :: "'v frame \<Rightarrow> string list \<Rightarrow> string list" where
  "missing df cs = filter (\<lambda>c. c \<notin> set (columns df)) cs"

text \<open>  \<^verbatim>\<open>df[[c1, ..., cn]]\<close>: a new frame with the listed columns in the listed order and
  the index of \<open>df\<close>; \<^verbatim>\<open>KeyError\<close> when a label is not a column.\<close>

definition getitem_list :: "'v frame \<Rightarrow> string list \<Rightarrow> error + 'v frame" where
  "getitem_list df cs =
     (if missing df cs = []
      then Inr \<lparr>columns = cs,
                rows = map (\<lambda>(i, r). (i, map (\<lambda>c. value_at (columns df) c r) cs)) (rows df)\<rparr>
      else Inl (KeyError (missing df cs)))"

text \<open>  \<^verbatim>\<open>df.dropna(subset=[...])\<close>: the rows in which no column of the subset is missing.\<close>

definition dropna :: "'v frame \<Rightarrow> string list \<Rightarrow> error + 'v frame" where
  "dropna df subs =
     (if missing df subs = []
      then Inr (df\<lparr>rows := filter (\<lambda>(i, r). list_all (\<lambda>c. value_at (columns df) c r \<noteq> NaN) subs)
                               (rows df)\<rparr>)
      else Inl (KeyError (missing df subs)))"

text \<open>  \<^verbatim>\<open>df.drop_duplicates()\<close> (\<^verbatim>\<open>keep='first'\<close>): a row is dropped when an earlier row
  has the same cells in every column; missing values compare equal. The index labels play
  no part in the comparison and stay with the rows kept.\<close>

fun first_seen :: "'a list \<Rightarrow> (nat \<times> 'a) list \<Rightarrow> (nat \<times> 'a) list" where
  "first_seen seen [] = []"
| "first_seen seen ((i, r) # rs) =
     (if r \<in> set seen then first_seen seen rs else (i, r) # first_seen (r # seen) rs)"

definition drop_duplicates :: "'v frame \<Rightarrow> 'v frame" where
  "drop_duplicates df = df\<lparr>rows := first_seen [] (rows df)\<rparr>"

text \<open>\<^verbatim>\<open>df.rename(columns={...})\<close>: labels not in the mapping are kept.\<close>

definition rename :: "'v frame \<Rightarrow> (string \<times> string) list \<Rightarrow> 'v frame" where
  "rename df mapper =
     df\<lparr>columns := map (\<lambda>c. case map_of mapper c of None \<Rightarrow> c | Some c' \<Rightarrow> c') (columns df)\<rparr>"

text \<open>\<^verbatim>\<open>df[c]\<close>: the column as a Series; \<^verbatim>\<open>KeyError\<close> when there is none.\<close>

definition getitem :: "'v frame \<Rightarrow> string \<Rightarrow> error + 'v series" where
  "getitem df c =
     (if c \<in> set (columns df)
      then Inr (map (\<lambda>(i, r). (i, value_at (columns df) c r)) (rows df))
      else Inl (KeyError [c]))"

text \<open>  Writing a column: an existing column is overwritten in place, a new one is appended as
  the last column.\<close>

definition set_column :: "'v frame \<Rightarrow> string \<Rightarrow> 'v cell list \<Rightarrow> 'v frame" where
  "set_column df c vs =
     (if c \<in> set (columns df)
      then df\<lparr>rows := map (\<lambda>((i, r), v). (i, r[pos c (columns df) := v])) (zip (rows df) vs)\<rparr>
      else \<lparr>columns = columns df @ [c],
            rows = map (\<lambda>((i, r), v). (i, r @ [v])) (zip (rows df) vs)\<rparr>)"

text \<open>  \<^verbatim>\<open>df[c] = series\<close>, as pandas' \<^verbatim>\<open>DataFrame.__setitem__\<close> does it. First
  (\<^verbatim>\<open>_ensure_valid_index\<close>): a frame with no rows that is assigned a non-empty Series
  takes over the index of the Series, every existing column filled with missing values.
  Then (\<^verbatim>\<open>_reindex_for_setitem\<close>): when the indexes are equal the values are taken as
  they are; otherwise the Series is reindexed by the labels of the frame (a label the
  Series lacks gives a missing value), which raises \<^verbatim>\<open>ValueError\<close> when the Series has
  a label twice.\<close>

definition ensure_valid_index :: "'v frame \<Rightarrow> 'v series \<Rightarrow> 'v frame" where
  "ensure_valid_index df s =
     (if rows df = [] \<and> s \<noteq> []
      then df\<lparr>rows := map (\<lambda>(i, v). (i, replicate (length (columns df)) NaN)) s\<rparr>
      else df)"

definition reindex :: "'v series \<Rightarrow> nat list \<Rightarrow> 'v cell list" where
  "reindex s labels = map (\<lambda>i. case map_of s i of None \<Rightarrow> NaN | Some v \<Rightarrow> v) labels"

definition setitem :: "'v frame \<Rightarrow> string \<Rightarrow> 'v series \<Rightarrow> error + 'v frame" where
  "setitem df c s =
     (let df1 = ensure_valid_index df s
      in if map fst s = map fst (rows df1) \<or> rows df1 = []
         then Inr (set_column df1 c (map snd s))
         else if distinct (map fst s)
         then Inr (set_column df1 c (reindex s (map fst (rows df1))))
         else Inl (ValueError ''cannot reindex on an axis with duplicate labels''))"

text \<open>\<^verbatim>\<open>df[c] = scalar\<close>: the value in every row.\<close>

definition setitem_scalar :: "'v frame \<Rightarrow> string \<Rightarrow> 'v cell \<Rightarrow> 'v frame" where
  "setitem_scalar df c v = set_column df c (replicate (length (rows df)) v)"

text \<open>  \<^verbatim>\<open>df.drop(columns=cs)\<close>: a frame without the columns labelled in \<open>cs\<close>;
  \<^verbatim>\<open>KeyError\<close> when a label is not a column.\<close>

definition drop_columns :: "'v frame \<Rightarrow> string list \<Rightarrow> error + 'v frame" where
  "drop_columns f cs =
     (if set cs \<subseteq> set (columns f)
      then Inr \<lparr>columns = filter (\<lambda>c. c \<notin> set cs) (columns f),
                rows = map (\<lambda>(i, r). (i, map snd (filter (\<lambda>(c, v). c \<notin> set cs) (zip (columns f) r))))
                         (rows f)\<rparr>
      else Inl (KeyError (filter (\<lambda>c. c \<notin> set (columns f)) cs)))"

subsection \<open>Frames as objects\<close>

text \<open>  The script holds DataFrames by reference and assigns columns to some of them in place,
  so frames live in a heap: the address of a frame is its position. A statement maps the
  heap to an exception, or to its value and the heap afterwards. A reference of the script
  always names a frame that exists; the properties below ask it of the source frame
  (\<open>df < length h\<close>), and every other address is one a method has returned.\<close>

type_synonym 'v heap = "'v frame list"

type_synonym ('v, 'a) py = "'v heap \<Rightarrow> error + ('a \<times> 'v heap)"

definition return :: "'a \<Rightarrow> ('v, 'a) py" where
  "return x h = Inr (x, h)"

definition bind :: "('v, 'a) py \<Rightarrow> ('a \<Rightarrow> ('v, 'b) py) \<Rightarrow> ('v, 'b) py" where
  "bind m k h = (case m h of Inl e \<Rightarrow> Inl e | Inr (x, h') \<Rightarrow> k x h')"

text \<open>  The three ways a method touches the heap: it returns a new frame and leaves its receiver
  alone, it changes its receiver in place, or it only reads.\<close>

definition new_frame :: "nat \<Rightarrow> ('v frame \<Rightarrow> error + 'v frame) \<Rightarrow> ('v, nat) py" where
  "new_frame a method h =
     (case method (h ! a) of Inl e \<Rightarrow> Inl e | Inr f \<Rightarrow> Inr (length h, h @ [f]))"

definition update_frame :: "nat \<Rightarrow> ('v frame \<Rightarrow> error + 'v frame) \<Rightarrow> ('v, unit) py" where
  "update_frame a method h =
     (case method (h ! a) of Inl e \<Rightarrow> Inl e | Inr f \<Rightarrow> Inr ((), h[a := f]))"

definition read_frame :: "nat \<Rightarrow> ('v frame \<Rightarrow> error + 'a) \<Rightarrow> ('v, 'a) py" where
  "read_frame a method h =
     (case method (h ! a) of Inl e \<Rightarrow> Inl e | Inr x \<Rightarrow> Inr (x, h))"

text \<open>  The pandas methods the extraction calls. Indexing with a list, \<^verbatim>\<open>dropna\<close>,
  \<^verbatim>\<open>drop_duplicates\<close> and \<^verbatim>\<open>rename\<close> (none with \<^verbatim>\<open>inplace=True\<close>) return new
  frames; item assignment changes the frame it is applied to.\<close>

definition df_getitem_list :: "nat \<Rightarrow> string list \<Rightarrow> ('v, nat) py" where
  "df_getitem_list df cs = new_frame df (\<lambda>f. getitem_list f cs)"

definition df_dropna :: "nat \<Rightarrow> string list \<Rightarrow> ('v, nat) py" where
  "df_dropna df subs = new_frame df (\<lambda>f. dropna f subs)"

definition df_drop_duplicates :: "nat \<Rightarrow> ('v, nat) py" where
  "df_drop_duplicates df = new_frame df (\<lambda>f. Inr (drop_duplicates f))"

definition df_rename :: "nat \<Rightarrow> (string \<times> string) list \<Rightarrow> ('v, nat) py" where
  "df_rename df mapper = new_frame df (\<lambda>f. Inr (rename f mapper))"

definition df_getitem :: "nat \<Rightarrow> string \<Rightarrow> ('v, 'v series) py" where
  "df_getitem df c = read_frame df (\<lambda>f. getitem f c)"

definition df_columns :: "nat \<Rightarrow> ('v, string list) py" where
  "df_columns df = read_frame df (\<lambda>f. Inr (columns f))"

definition df_setitem :: "nat \<Rightarrow> string \<Rightarrow> 'v series \<Rightarrow> ('v, unit) py" where
  "df_setitem df c s = update_frame df (\<lambda>f. setitem f c s)"

definition df_setitem_scalar :: "nat \<Rightarrow> string \<Rightarrow> 'v cell \<Rightarrow> ('v, unit) py" where
  "df_setitem_scalar df c v = update_frame df (\<lambda>f. Inr (setitem_scalar f c v))"

subsection \<open>The extraction\<close>

text \<open>  The chain \<^verbatim>\<open>df[[...]].dropna(subset=[...]).drop_duplicates()\<close> that starts each of the
  eleven blocks of \<^verbatim>\<open>extract_table_data\<close>.\<close>

definition select_dropna_dedup :: "nat \<Rightarrow> string list \<Rightarrow> string list \<Rightarrow> ('v, nat) py" where
  "select_dropna_dedup df cs subs =
     bind (df_getitem_list df cs) (\<lambda>a.
     bind (df_dropna a subs) (\<lambda>b.
     df_drop_duplicates b))"

text \<open>  The eleven numbered blocks of \<^verbatim>\<open>extract_table_data\<close>, each returning the address
  of the frame it stores in \<^verbatim>\<open>tables\<close>. Blocks 5, 7, 9 and 11 go on to assign columns
  to that frame; the two assignments guarded by \<^verbatim>\<open>if ... in df.columns\<close> take their
  Series from the source frame \<open>df\<close>.\<close>

definition tipo_documento :: "nat \<Rightarrow> ('v, nat) py" where
  "tipo_documento df =
     bind (select_dropna_dedup df [''id_tipo_documento'', ''nombre'', ''descripcion'']
             [''id_tipo_documento'']) (\<lambda>t.
     df_rename t [(''nombre'', ''nombre''), (''descripcion'', ''descripcion'')])"

definition canal_cliente :: "nat \<Rightarrow> ('v, nat) py" where
  "canal_cliente df =
     bind (select_dropna_dedup df [''id_canal_cliente'', ''nombre.1'', ''descripcion.1'']
             [''id_canal_cliente'']) (\<lambda>t.
     df_rename t [(''nombre.1'', ''nombre''), (''descripcion.1'', ''descripcion'')])"

definition tipo_pago :: "nat \<Rightarrow> ('v, nat) py" where
  "tipo_pago df =
     bind (select_dropna_dedup df [''id_tipo_pago'', ''nombre_tipo_pago'', ''descripcion.2'']
             [''id_tipo_pago'']) (\<lambda>t.
     df_rename t [(''descripcion.2'', ''descripcion'')])"

definition cargo_trabajador :: "nat \<Rightarrow> ('v, nat) py" where
  "cargo_trabajador df =
     bind (select_dropna_dedup df [''id_cargo_trabajador'', ''nombre.2'', ''descripcion.4'']
             [''id_cargo_trabajador'']) (\<lambda>t.
     df_rename t [(''nombre.2'', ''nombre_cargo''), (''descripcion.4'', ''descripcion'')])"

definition marca_producto :: "nat \<Rightarrow> ('v, nat) py" where
  "marca_producto df =
     bind (select_dropna_dedup df [''id_marca_producto'', ''nombre_marca'']
             [''id_marca_producto'']) (\<lambda>t.
     bind (df_getitem t ''nombre_marca'') (\<lambda>s.
     bind (df_setitem t ''descripcion'' s) (\<lambda>_.
     return t)))"

definition categoria_producto :: "nat \<Rightarrow> ('v, nat) py" where
  "categoria_producto df =
     bind (select_dropna_dedup df
             [''id_categoria_producto'', ''nombre_categoria'', ''descripcion.5'']
             [''id_categoria_producto'']) (\<lambda>t.
     df_rename t [(''descripcion.5'', ''descripcion'')])"

definition trabajador :: "nat \<Rightarrow> ('v, nat) py" where
  "trabajador df =
     bind (select_dropna_dedup df
             [''id_trabajador'', ''nombre trabajador'', ''correo'', ''telefono.1'',
              ''id_cargo_trabajador'']
             [''id_trabajador'']) (\<lambda>a.
     bind (df_rename a [(''nombre trabajador'', ''nombres''), (''correo'', ''email''),
                        (''telefono.1'', ''telefono'')]) (\<lambda>t.
     bind (df_setitem_scalar t ''apellidos'' (Str [])) (\<lambda>_.
     return t)))"

definition cliente :: "nat \<Rightarrow> ('v, nat) py" where
  "cliente df =
     bind (select_dropna_dedup df
             [''id_cliente'', ''nombre_cliente'', ''numero_documento'', ''correo.1'',
              ''telefono.2'', ''direccion'', ''id_tipo_documento'', ''id_canal_cliente'']
             [''id_cliente'']) (\<lambda>t.
     df_rename t [(''correo.1'', ''email''), (''telefono.2'', ''telefono'')])"

definition producto :: "nat \<Rightarrow> ('v, nat) py" where
  "producto df =
     bind (select_dropna_dedup df
             [''id_producto'', ''descripcion.6'', ''precio'', ''id_marca_producto'',
              ''id_categoria_producto'']
             [''id_producto'']) (\<lambda>a.
     bind (df_rename a [(''descripcion.6'', ''descripcion'')]) (\<lambda>t.
     bind (df_columns df) (\<lambda>cols.
     bind (if ''codigo_formato_producto'' \<in> set cols
           then bind (df_getitem df ''codigo_formato_producto'') (\<lambda>s.
                df_setitem t ''id_formato_producto'' s)
           else return ()) (\<lambda>_.
     return t))))"

definition pedido :: "nat \<Rightarrow> ('v, nat) py" where
  "pedido df =
     select_dropna_dedup df
       [''id_pedido'', ''id_trabajador'', ''id_cliente'', ''id_tipo_pago'', ''fecha'',
        ''monto_total'']
       [''id_pedido'']"

definition detalle_pedido :: "nat \<Rightarrow> ('v, nat) py" where
  "detalle_pedido df =
     bind (select_dropna_dedup df
             [''id_detalle_pedido'', ''id_pedido'', ''id_producto'', ''cantidad'',
              ''precio_unitario'']
             [''id_detalle_pedido'']) (\<lambda>t.
     bind (df_columns df) (\<lambda>cols.
     bind (if ''id_promocion'' \<in> set cols
           then bind (df_getitem df ''id_promocion'') (\<lambda>s.
                df_setitem t ''id_promocion'' s)
           else return ()) (\<lambda>_.
     bind (df_setitem_scalar t ''descuento'' (Num 0)) (\<lambda>_.
     return t))))"

text \<open>  \<^verbatim>\<open>extract_table_data\<close>: the blocks in order; the dictionary \<^verbatim>\<open>tables\<close> it returns,
  in insertion order, with the addresses of the frames.\<close>

definition extract_table_data :: "nat \<Rightarrow> ('v, (string \<times> nat) list) py" where
  "extract_table_data df =
     bind (tipo_documento df) (\<lambda>t1.
     bind (canal_cliente df) (\<lambda>t2.
     bind (tipo_pago df) (\<lambda>t3.
     bind (cargo_trabajador df) (\<lambda>t4.
     bind (marca_producto df) (\<lambda>t5.
     bind (categoria_producto df) (\<lambda>t6.
     bind (trabajador df) (\<lambda>t7.
     bind (cliente df) (\<lambda>t8.
     bind (producto df) (\<lambda>t9.
     bind (pedido df) (\<lambda>t10.
     bind (detalle_pedido df) (\<lambda>t11.
     return [(''tipo_documento'', t1), (''canal_cliente'', t2), (''tipo_pago'', t3),
             (''cargo_trabajador'', t4), (''marca_producto'', t5),
             (''categoria_producto'', t6), (''trabajador'', t7), (''cliente'', t8),
             (''producto'', t9), (''pedido'', t10), (''detalle_pedido'', t11)])))))))))))"

text \<open>  What a caller sees of a result: the frames behind the addresses, and the frame of one
  table.\<close>

definition tables_of ::
  "error + ((string \<times> nat) list \<times> 'v heap) \<Rightarrow> error + (string \<times> 'v frame) list" where
  "tables_of r =
     (case r of Inl e \<Rightarrow> Inl e
      | Inr (tables, h) \<Rightarrow> Inr (map (\<lambda>(name, t). (name, h ! t)) tables))"

definition candidate ::
  "string \<Rightarrow> error + ((string \<times> nat) list \<times> 'v heap) \<Rightarrow> 'v frame option" where
  "candidate name r = (case tables_of r of Inl e \<Rightarrow> None | Inr ts \<Rightarrow> map_of ts name)"

text \<open>  Every column label that \<^verbatim>\<open>extract_table_data\<close> selects without a guard: a source
  frame that lacks one of them makes the selection raise \<^verbatim>\<open>KeyError\<close>.\<close>

definition required_columns :: "string list" where
  "required_columns =
     [''id_tipo_documento'', ''nombre'', ''descripcion'', ''id_canal_cliente'',
      ''nombre.1'', ''descripcion.1'', ''id_tipo_pago'', ''nombre_tipo_pago'',
      ''descripcion.2'', ''id_cargo_trabajador'', ''nombre.2'', ''descripcion.4'',
      ''id_marca_producto'', ''nombre_marca'', ''id_categoria_producto'',
      ''nombre_categoria'', ''descripcion.5'', ''id_trabajador'',
      ''nombre trabajador'', ''correo'', ''telefono.1'', ''id_cliente'',
      ''nombre_cliente'', ''numero_documento'', ''correo.1'', ''telefono.2'',
      ''direccion'', ''id_producto'', ''descripcion.6'', ''precio'', ''id_pedido'',
      ''fecha'', ''monto_total'', ''id_detalle_pedido'', ''cantidad'',
      ''precio_unitario'']"

subsection \<open>The loader\<close>

text \<open>  The entry of \<^verbatim>\<open>results\<close> for one table: \<^verbatim>\<open>"... {len(df_table)} registros cargados"\<close>
  or \<^verbatim>\<open>"... Error: {str(e)}"\<close>.\<close>

datatype load_result = Loaded nat | Failed error

text \<open>  The first statements of the \<^verbatim>\<open>try\<close> block: the column \<^verbatim>\<open>id_<table>\<close> is
  dropped if the frame has it.\<close>

definition without_id :: "string \<Rightarrow> 'v frame \<Rightarrow> error + 'v frame" where
  "without_id table_name df_table =
     (let id_column = ''id_'' @ table_name
      in if id_column \<in> set (columns df_table) then drop_columns df_table [id_column]
         else Inr df_table)"

text \<open>  One iteration of the loop over \<^verbatim>\<open>load_order\<close>. The store is a state \<open>'s\<close>; the call
  \<^verbatim>\<open>df_table.to_sql(table_name, ...)\<close> is a parameter that returns the exception it
  raised, if any, and the store afterwards. A table without a candidate frame is skipped;
  any exception inside \<^verbatim>\<open>try\<close> becomes the table's entry and the loop goes on.\<close>

definition load_table ::
  "(string \<Rightarrow> 'v frame \<Rightarrow> 's \<Rightarrow> error option \<times> 's) \<Rightarrow> (string \<rightharpoonup> 'v frame) \<Rightarrow>
   (string \<rightharpoonup> load_result) \<times> 's \<Rightarrow> string \<Rightarrow> (string \<rightharpoonup> load_result) \<times> 's" where
  "load_table to_sql tables_data st table_name =
     (case st of (results, engine) \<Rightarrow>
        (case tables_data table_name of
           None \<Rightarrow> (results, engine)
         | Some df \<Rightarrow>
             (case without_id table_name df of
                Inl e \<Rightarrow> (results(table_name \<mapsto> Failed e), engine)
              | Inr df_table \<Rightarrow>
                  (case to_sql table_name df_table engine of
                     (None, engine') \<Rightarrow> (results(table_name \<mapsto> Loaded (len df_table)), engine')
                   | (Some e, engine') \<Rightarrow> (results(table_name \<mapsto> Failed e), engine')))))"

text \<open>\<^verbatim>\<open>load_data_to_database\<close>: the loop, from empty \<^verbatim>\<open>results\<close>.\<close>

definition load_data_to_database ::
  "(string \<Rightarrow> 'v frame \<Rightarrow> 's \<Rightarrow> error option \<times> 's) \<Rightarrow> (string \<rightharpoonup> 'v frame) \<Rightarrow> 's \<Rightarrow>
   (string \<rightharpoonup> load_result) \<times> 's" where
  "load_data_to_database to_sql tables_data engine =
     foldl (load_table to_sql tables_data) (Map.empty, engine) load_order"

text \<open>The store as it is when the loop reaches table \<open>t\<close>.\<close>

definition engine_before ::
  "(string \<Rightarrow> 'v frame \<Rightarrow> 's \<Rightarrow> error option \<times> 's) \<Rightarrow> (string \<rightharpoonup> 'v frame) \<Rightarrow> 's \<Rightarrow> string \<Rightarrow> 's" where
  "engine_before to_sql tables_data engine t =
     snd (foldl (load_table to_sql tables_data) (Map.empty, engine)
            (takeWhile (\<lambda>x. x \<noteq> t) load_order))"

text \<open>A store that also records every \<^verbatim>\<open>to_sql\<close> call it receives, in order.\<close>

definition recording ::
  "(string \<Rightarrow> 'v frame \<Rightarrow> 's \<Rightarrow> error option \<times> 's) \<Rightarrow>
   string \<Rightarrow> 'v frame \<Rightarrow> (string \<times> 'v frame) list \<times> 's \<Rightarrow>
   error option \<times> ((string \<times> 'v frame) list \<times> 's)" where
  "recording to_sql t f st =
     (case st of (calls, engine) \<Rightarrow>
        (case to_sql t f engine of (r, engine') \<Rightarrow> (r, (calls @ [(t, f)], engine'))))"

text \<open>  Frame \<open>g\<close> is frame \<open>f\<close> without the column \<open>id_column\<close>: its labels are the
  other labels of \<open>f\<close>; it has the rows of \<open>f\<close> under the same index labels in the same
  order; the labelled cells of each row are the labelled cells of the row of \<open>f\<close> other
  than those labelled \<open>id_column\<close>, so no cell of that column is left and a row with one
  cell per column of \<open>f\<close> has one cell per column of \<open>g\<close>; and under every label of
  \<open>g\<close> a row holds the value it holds in \<open>f\<close>.\<close>

definition handed_over :: "string \<Rightarrow> 'v frame \<Rightarrow> 'v frame \<Rightarrow> bool" where
  "handed_over id_column f g \<longleftrightarrow>
     columns g = filter (\<lambda>c. c \<noteq> id_column) (columns f)
     \<and> list_all2
         (\<lambda>(i, r) (j, r').
            j = i
            \<and> zip (columns g) r' = filter (\<lambda>(c, v). c \<noteq> id_column) (zip (columns f) r)
            \<and> (length r = length (columns f) \<longrightarrow> length r' = length (columns g))
            \<and> (\<forall>c \<in> set (columns g). value_at (columns g) c r' = value_at (columns f) c r))
         (rows f) (rows g)"

subsection \<open>The validator\<close>

text \<open>
  The entry of \<^verbatim>\<open>counts\<close> for one table: the count, or \<^verbatim>\<open>"Error: {e}"\<close>.
\<close>

datatype count_result = Count nat | CountError error

text \<open>The query text \<^verbatim>\<open>f"SELECT COUNT(*) FROM {table}"\<close>.\<close>

definition count_query :: "string \<Rightarrow> string" where
  "count_query table = ''SELECT COUNT(*) FROM '' @ table"

text \<open>
  One iteration of the loop over \<^verbatim>\<open>tables_to_check\<close>: \<^verbatim>\<open>conn.execute(...)\<close>
  followed by \<^verbatim>\<open>result.scalar()\<close> is a parameter that returns the count or the exception
  raised, and the connection afterwards.
\<close>

definition count_table ::
  "(string \<Rightarrow> 'c \<Rightarrow> (error + nat) \<times> 'c) \<Rightarrow>
   (string \<rightharpoonup> count_result) \<times> 'c \<Rightarrow> string \<Rightarrow> (string \<rightharpoonup> count_result) \<times> 'c" where
  "count_table execute st table =
     (case st of (counts, conn) \<Rightarrow>
        (case execute (count_query table) conn of
           (Inr count, conn') \<Rightarrow> (counts(table \<mapsto> Count count), conn')
         | (Inl e, conn') \<Rightarrow> (counts(table \<mapsto> CountError e), conn')))"

text \<open>The body of the \<^verbatim>\<open>with\<close> block: the loop, from empty \<^verbatim>\<open>counts\<close>.\<close>

definition count_tables ::
  "(string \<Rightarrow> 'c \<Rightarrow> (error + nat) \<times> 'c) \<Rightarrow> 'c \<Rightarrow> (string \<rightharpoonup> count_result) \<times> 'c" where
  "count_tables execute conn = foldl (count_table execute) (Map.empty, conn) tables_to_check"

text \<open>
  \<^verbatim>\<open>validate_data_integrity\<close>: \<^verbatim>\<open>engine.connect()\<close> is outside every
  \<^verbatim>\<open>try\<close>, so its exception escapes; otherwise the counts are returned.
\<close>

definition validate_data_integrity ::
  "('e \<Rightarrow> error + 'c) \<Rightarrow> (string \<Rightarrow> 'c \<Rightarrow> (error + nat) \<times> 'c) \<Rightarrow> 'e \<Rightarrow>
   error + (string \<rightharpoonup> count_result)" where
  "validate_data_integrity connect execute engine =
     (case connect engine of
        Inl e \<Rightarrow> Inl e
      | Inr conn \<Rightarrow> Inr (fst (count_tables execute conn)))"

text \<open>The connection as it is when the loop reaches table \<open>t\<close>.\<close>

definition conn_before ::
  "(string \<Rightarrow> 'c \<Rightarrow> (error + nat) \<times> 'c) \<Rightarrow> 'c \<Rightarrow> string \<Rightarrow> 'c" where
  "conn_before execute conn t =
     snd (foldl (count_table execute) (Map.empty, conn)
            (takeWhile (\<lambda>x. x \<noteq> t) tables_to_check))"

text \<open>A connection that also records every query it executes, in order.\<close>

definition recording_queries ::
  "(string \<Rightarrow> 'c \<Rightarrow> (error + nat) \<times> 'c) \<Rightarrow> string \<Rightarrow> string list \<times> 'c \<Rightarrow>
   (error + nat) \<times> (string list \<times> 'c)" where
  "recording_queries execute q st =
     (case st of (queries, conn) \<Rightarrow>
        (case execute q conn of (r, conn') \<Rightarrow> (r, (queries @ [q], conn'))))"

subsection \<open>The extraction, frame by frame\<close>

text \<open>  The same computations as functions of the source frame alone, without the heap: what the
  chain computes, and what each block leaves in the frame it returns. The section on the
  extraction below proves that the blocks compute exactly these frames.\<close>

definition clean :: "'v frame \<Rightarrow> string list \<Rightarrow> string list \<Rightarrow> error + 'v frame" where
  "clean f cs subs =
     (case getitem_list f cs of Inl e \<Rightarrow> Inl e
      | Inr a \<Rightarrow> (case dropna a subs of Inl e \<Rightarrow> Inl e | Inr b \<Rightarrow> Inr (drop_duplicates b)))"

definition renamed :: "(string \<times> string) list \<Rightarrow> error + 'v frame \<Rightarrow> error + 'v frame" where
  "renamed mapper r = (case r of Inl e \<Rightarrow> Inl e | Inr f \<Rightarrow> Inr (rename f mapper))"

definition with_copy_of :: "string \<Rightarrow> string \<Rightarrow> error + 'v frame \<Rightarrow> error + 'v frame" where
  "with_copy_of src c r =
     (case r of Inl e \<Rightarrow> Inl e
      | Inr f \<Rightarrow> (case getitem f src of Inl e \<Rightarrow> Inl e | Inr s \<Rightarrow> setitem f c s))"

definition with_scalar :: "string \<Rightarrow> 'v cell \<Rightarrow> error + 'v frame \<Rightarrow> error + 'v frame" where
  "with_scalar c v r = (case r of Inl e \<Rightarrow> Inl e | Inr f \<Rightarrow> Inr (setitem_scalar f c v))"

definition with_optional ::
  "'v frame \<Rightarrow> string \<Rightarrow> string \<Rightarrow> error + 'v frame \<Rightarrow> error + 'v frame" where
  "with_optional df src c r =
     (case r of Inl e \<Rightarrow> Inl e
      | Inr f \<Rightarrow>
          if src \<in> set (columns df)
          then (case getitem df src of Inl e \<Rightarrow> Inl e | Inr s \<Rightarrow> setitem f c s)
          else Inr f)"

definition tipo_documento_of :: "'v frame \<Rightarrow> error + 'v frame" where
  "tipo_documento_of df =
     renamed [(''nombre'', ''nombre''), (''descripcion'', ''descripcion'')]
       (clean df [''id_tipo_documento'', ''nombre'', ''descripcion''] [''id_tipo_documento''])"

definition canal_cliente_of :: "'v frame \<Rightarrow> error + 'v frame" where
  "canal_cliente_of df =
     renamed [(''nombre.1'', ''nombre''), (''descripcion.1'', ''descripcion'')]
       (clean df [''id_canal_cliente'', ''nombre.1'', ''descripcion.1''] [''id_canal_cliente''])"

definition tipo_pago_of :: "'v frame \<Rightarrow> error + 'v frame" where
  "tipo_pago_of df =
     renamed [(''descripcion.2'', ''descripcion'')]
       (clean df [''id_tipo_pago'', ''nombre_tipo_pago'', ''descripcion.2''] [''id_tipo_pago''])"

definition cargo_trabajador_of :: "'v frame \<Rightarrow> error + 'v frame" where
  "cargo_trabajador_of df =
     renamed [(''nombre.2'', ''nombre_cargo''), (''descripcion.4'', ''descripcion'')]
       (clean df [''id_cargo_trabajador'', ''nombre.2'', ''descripcion.4'']
          [''id_cargo_trabajador''])"

definition marca_producto_of :: "'v frame \<Rightarrow> error + 'v frame" where
  "marca_producto_of df =
     with_copy_of ''nombre_marca'' ''descripcion''
       (clean df [''id_marca_producto'', ''nombre_marca''] [''id_marca_producto''])"

definition categoria_producto_of :: "'v frame \<Rightarrow> error + 'v frame" where
  "categoria_producto_of df =
     renamed [(''descripcion.5'', ''descripcion'')]
       (clean df [''id_categoria_producto'', ''nombre_categoria'', ''descripcion.5'']
          [''id_categoria_producto''])"

definition trabajador_of :: "'v frame \<Rightarrow> error + 'v frame" where
  "trabajador_of df =
     with_scalar ''apellidos'' (Str [])
       (renamed [(''nombre trabajador'', ''nombres''), (''correo'', ''email''),
                 (''telefono.1'', ''telefono'')]
          (clean df [''id_trabajador'', ''nombre trabajador'', ''correo'', ''telefono.1'',
                     ''id_cargo_trabajador''] [''id_trabajador'']))"

definition cliente_of :: "'v frame \<Rightarrow> error + 'v frame" where
  "cliente_of df =
     renamed [(''correo.1'', ''email''), (''telefono.2'', ''telefono'')]
       (clean df [''id_cliente'', ''nombre_cliente'', ''numero_documento'', ''correo.1'',
                  ''telefono.2'', ''direccion'', ''id_tipo_documento'', ''id_canal_cliente'']
          [''id_cliente''])"

definition producto_of :: "'v frame \<Rightarrow> error + 'v frame" where
  "producto_of df =
     with_optional df ''codigo_formato_producto'' ''id_formato_producto''
       (renamed [(''descripcion.6'', ''descripcion'')]
          (clean df [''id_producto'', ''descripcion.6'', ''precio'', ''id_marca_producto'',
                     ''id_categoria_producto''] [''id_producto'']))"

definition pedido_of :: "'v frame \<Rightarrow> error + 'v frame" where
  "pedido_of df =
     clean df [''id_pedido'', ''id_trabajador'', ''id_cliente'', ''id_tipo_pago'', ''fecha'',
               ''monto_total''] [''id_pedido'']"

definition detalle_pedido_of :: "'v frame \<Rightarrow> error + 'v frame" where
  "detalle_pedido_of df =
     with_scalar ''descuento'' (Num 0)
       (with_optional df ''id_promocion'' ''id_promocion''
          (clean df [''id_detalle_pedido'', ''id_pedido'', ''id_producto'', ''cantidad'',
                     ''precio_unitario''] [''id_detalle_pedido'']))"

definition candidates :: "(string \<times> ('v frame \<Rightarrow> error + 'v frame)) list" where
  "candidates =
     [(''tipo_documento'', tipo_documento_of),
      (''canal_cliente'', canal_cliente_of),
      (''tipo_pago'', tipo_pago_of),
      (''cargo_trabajador'', cargo_trabajador_of),
      (''marca_producto'', marca_producto_of),
      (''categoria_producto'', categoria_producto_of),
      (''trabajador'', trabajador_of),
      (''cliente'', cliente_of),
      (''producto'', producto_of),
      (''pedido'', pedido_of),
      (''detalle_pedido'', detalle_pedido_of)]"

fun collect ::
  "(string \<times> ('v frame \<Rightarrow> error + 'v frame)) list \<Rightarrow> 'v frame \<Rightarrow> error + (string \<times> 'v frame) list" where
  "collect [] df = Inr []"
| "collect ((name, f) # fs) df =
     (case f df of
        Inl e \<Rightarrow> Inl e
      | Inr t \<Rightarrow> (case collect fs df of Inl e \<Rightarrow> Inl e | Inr ts \<Rightarrow> Inr ((name, t) # ts)))"

definition candidate_frames :: "'v frame \<Rightarrow> error + (string \<times> 'v frame) list" where
  "candidate_frames df = collect candidates df"

text \<open>The blocks by name, and the statement sequence that runs a list of blocks in order.\<close>

definition blocks :: "(string \<times> (nat \<Rightarrow> ('v, nat) py)) list" where
  "blocks =
     [(''tipo_documento'', tipo_documento), (''canal_cliente'', canal_cliente),
      (''tipo_pago'', tipo_pago), (''cargo_trabajador'', cargo_trabajador),
      (''marca_producto'', marca_producto), (''categoria_producto'', categoria_producto),
      (''trabajador'', trabajador), (''cliente'', cliente), (''producto'', producto),
      (''pedido'', pedido), (''detalle_pedido'', detalle_pedido)]"

fun run_blocks ::
  "(string \<times> (nat \<Rightarrow> ('v, nat) py)) list \<Rightarrow> nat \<Rightarrow> ('v, (string \<times> nat) list) py" where
  "run_blocks [] df = return []"
| "run_blocks ((name, b) # bs) df =
     bind (b df) (\<lambda>t. bind (run_blocks bs df) (\<lambda>ts. return ((name, t) # ts)))"

definition table_names :: "string list" where
  "table_names =
     [''tipo_documento'', ''canal_cliente'', ''tipo_pago'', ''cargo_trabajador'',
      ''marca_producto'', ''categoria_producto'', ''trabajador'', ''cliente'', ''producto'',
      ''pedido'', ''detalle_pedido'']"

text \<open>  A statement returns a new frame: it only appends to the heap, returns an address beyond
  the old heap, and the frame there is the given one; an exception is the given one.\<close>

definition returns_new :: "('v, nat) py \<Rightarrow> 'v heap \<Rightarrow> error + 'v frame \<Rightarrow> bool" where
  "returns_new m h v =
     (case m h of
        Inl e \<Rightarrow> v = Inl e
      | Inr (t, h') \<Rightarrow>
          length h \<le> t \<and> t < length h' \<and> (\<exists>new. h' = h @ new) \<and> v = Inr (h' ! t))"

definition fresh_tables :: "'v heap \<Rightarrow> error + ((string \<times> nat) list \<times> 'v heap) \<Rightarrow> bool" where
  "fresh_tables h r =
     (case r of Inl e \<Rightarrow> True
      | Inr (tables, h') \<Rightarrow>
          (\<exists>new. h' = h @ new) \<and> list_all (\<lambda>(name, t). length h \<le> t \<and> t < length h') tables)"

text \<open>  The rows the chain leaves, the value a Series holds for a label, a column of the source
  as a Series, and the rows after assigning such a column to a frame with rows \<open>rs\<close> of
  \<open>n\<close> cells each.\<close>

definition project :: "string list \<Rightarrow> string list \<Rightarrow> 'v cell list \<Rightarrow> 'v cell list" where
  "project header cs r = map (\<lambda>c. value_at header c r) cs"

definition clean_rows :: "'v frame \<Rightarrow> string list \<Rightarrow> string list \<Rightarrow> (nat \<times> 'v cell list) list" where
  "clean_rows f cs subs =
     first_seen []
       (filter (\<lambda>(i, r). list_all (\<lambda>c. value_at cs c r \<noteq> NaN) subs)
          (map (\<lambda>(i, r). (i, project (columns f) cs r)) (rows f)))"

definition at_label :: "'v series \<Rightarrow> nat \<Rightarrow> 'v cell" where
  "at_label s i = (case map_of s i of None \<Rightarrow> NaN | Some v \<Rightarrow> v)"

definition source_column :: "'v frame \<Rightarrow> string \<Rightarrow> 'v series" where
  "source_column f c = map (\<lambda>(i, r). (i, value_at (columns f) c r)) (rows f)"

definition with_source_column ::
  "'v frame \<Rightarrow> string \<Rightarrow> nat \<Rightarrow> (nat \<times> 'v cell list) list \<Rightarrow> (nat \<times> 'v cell list) list" where
  "with_source_column f src n rs =
     (if rs = [] \<and> rows f \<noteq> []
      then map (\<lambda>(i, v). (i, replicate n NaN @ [v])) (source_column f src)
      else map (\<lambda>(i, r). (i, r @ [at_label (source_column f src) i])) rs)"

subsection \<open>The pipeline of the specification\<close>

text \<open>  The Table Extractor as the specification words it: project each source record onto the
  declared columns, drop the projected records whose identifying column is missing,
  deduplicate by equality of all projected columns, keeping the first occurrence and the
  order of the source.\<close>

fun dedup :: "'a list \<Rightarrow> 'a list" where
  "dedup [] = []"
| "dedup (x # xs) = x # dedup (filter (\<lambda>y. y \<noteq> x) xs)"

definition reference_pipeline :: "'v frame \<Rightarrow> string list \<Rightarrow> string \<Rightarrow> 'v cell list list" where
  "reference_pipeline df cs idc =
     dedup (filter (\<lambda>p. value_at cs idc p \<noteq> NaN)
              (map (\<lambda>(i, r). map (\<lambda>c. value_at (columns df) c r) cs) (rows df)))"

text \<open>  The column lists of the eleven selections \<^verbatim>\<open>df[[...]]\<close>, by table; the first label
  of each is the identifying column that \<^verbatim>\<open>dropna\<close> tests.\<close>

definition projections :: "(string \<times> string list) list" where
  "projections =
     [(''tipo_documento'',
       [''id_tipo_documento'', ''nombre'', ''descripcion'']),
      (''canal_cliente'',
       [''id_canal_cliente'', ''nombre.1'', ''descripcion.1'']),
      (''tipo_pago'',
       [''id_tipo_pago'', ''nombre_tipo_pago'', ''descripcion.2'']),
      (''cargo_trabajador'',
       [''id_cargo_trabajador'', ''nombre.2'', ''descripcion.4'']),
      (''marca_producto'',
       [''id_marca_producto'', ''nombre_marca'']),
      (''categoria_producto'',
       [''id_categoria_producto'', ''nombre_categoria'', ''descripcion.5'']),
      (''trabajador'',
       [''id_trabajador'', ''nombre trabajador'', ''correo'', ''telefono.1'',
        ''id_cargo_trabajador'']),
      (''cliente'',
       [''id_cliente'', ''nombre_cliente'', ''numero_documento'', ''correo.1'',
        ''telefono.2'', ''direccion'', ''id_tipo_documento'', ''id_canal_cliente'']),
      (''producto'',
       [''id_producto'', ''descripcion.6'', ''precio'', ''id_marca_producto'',
        ''id_categoria_producto'']),
      (''pedido'',
       [''id_pedido'', ''id_trabajador'', ''id_cliente'', ''id_tipo_pago'', ''fecha'',
        ''monto_total'']),
      (''detalle_pedido'',
       [''id_detalle_pedido'', ''id_pedido'', ''id_producto'', ''cantidad'',
        ''precio_unitario''])]"

section \<open>Properties\<close>

subsection \<open>Load order and foreign keys\<close>

text \<open>
  C2, as claimed: every table of the load order appears after every table that one of its
  foreign keys references. This fails on the schema: \<^verbatim>\<open>producto\<close> references
  \<^verbatim>\<open>formato_producto\<close> and \<^verbatim>\<open>detalle_pedido\<close> references
  \<^verbatim>\<open>promocion\<close>, and neither referenced table is in the load order at all.
\<close>

theorem load_order_not_after_all_references:
  "\<not> after_all_references schema_sql load_order
   \<and> ''formato_producto'' \<in> set (references schema_sql ''producto'')
   \<and> \<not> loaded_before load_order ''formato_producto'' ''producto''"
  by (simp add: after_all_references_def references_def loaded_before_def
      schema_sql_def load_order_def)

text \<open>
  C2, amended: the load order has no repetition, lists tables of the schema only, and places
  every table after each referenced table that is itself loaded; the only references that
  leave the load order are \<^verbatim>\<open>producto\<close> to \<^verbatim>\<open>formato_producto\<close> and
  \<^verbatim>\<open>detalle_pedido\<close> to \<^verbatim>\<open>promocion\<close>.
\<close>

theorem load_order_after_loaded_references:
  "distinct load_order
   \<and> set load_order \<subseteq> set (map fst schema_sql)
   \<and> after_loaded_references schema_sql load_order
   \<and> unloaded_references schema_sql load_order =
       [(''producto'', ''formato_producto''), (''detalle_pedido'', ''promocion'')]"
  by (simp add: after_loaded_references_def unloaded_references_def references_def
      loaded_before_def schema_sql_def load_order_def)

subsection \<open>Tables covered by the validation\<close>

text \<open>
  C5, as claimed: the validator queries every table of the load order. This fails:
  \<^verbatim>\<open>tipo_documento\<close> is loaded and never counted.
\<close>

theorem tables_to_check_misses_loaded_table:
  "''tipo_documento'' \<in> set load_order
   \<and> g2_name ''tipo_documento'' \<notin> set tables_to_check
   \<and> ''tipo_documento'' \<notin> set tables_to_check
   \<and> \<not> set (map g2_name load_order) \<subseteq> set tables_to_check"
  by (simp add: load_order_def tables_to_check_def g2_name_def)

text \<open>
  C5, amended: the validator queries exactly the five main tables, trabajador, cliente,
  producto, pedido and detalle_pedido, under their schema-qualified names; each of them is
  a table of the load order, and the six reference tables are not queried.
\<close>

theorem tables_to_check_are_main_tables:
  "tables_to_check =
     map g2_name [''cliente'', ''trabajador'', ''producto'', ''pedido'', ''detalle_pedido'']
   \<and> set tables_to_check \<subseteq> set (map g2_name load_order)
   \<and> filter (\<lambda>t. g2_name t \<notin> set tables_to_check) load_order =
       [''tipo_documento'', ''canal_cliente'', ''tipo_pago'', ''cargo_trabajador'',
        ''marca_producto'', ''categoria_producto'']"
  by (simp add: load_order_def tables_to_check_def g2_name_def)

subsection \<open>Loops that fill a dictionary\<close>

lemma foldl_keeps_other:
  assumes step: "\<And>m s k. \<exists>s'. step (m, s) k = (m, s') \<or> (\<exists>r. step (m, s) k = (m(k \<mapsto> r), s'))"
  shows "k \<notin> set ks \<Longrightarrow> fst (foldl step (m, s) ks) k = m k"
proof (induction ks arbitrary: m s)
  case Nil
  then show ?case by simp
next
  case (Cons x xs)
  from step[of m s x] obtain s' where
    "step (m, s) x = (m, s') \<or> (\<exists>r. step (m, s) x = (m(x \<mapsto> r), s'))" by blast
  then show ?case using Cons by auto
qed

lemma foldl_invariant:
  "P s0 \<Longrightarrow> (\<And>s k. P s \<Longrightarrow> k \<in> set ks \<Longrightarrow> P (step s k)) \<Longrightarrow> P (foldl step s0 ks)"
  by (induction ks arbitrary: s0) auto

lemma split_at_first:
  "k \<in> set ks \<Longrightarrow> \<exists>zs. ks = takeWhile (\<lambda>x. x \<noteq> k) ks @ k # zs \<and> (distinct ks \<longrightarrow> k \<notin> set zs)"
proof -
  assume k: "k \<in> set ks"
  have e: "ks = takeWhile (\<lambda>x. x \<noteq> k) ks @ dropWhile (\<lambda>x. x \<noteq> k) ks" by simp
  from k have "dropWhile (\<lambda>x. x \<noteq> k) ks \<noteq> []" by auto
  then obtain y zs where d: "dropWhile (\<lambda>x. x \<noteq> k) ks = y # zs" by (cases "dropWhile (\<lambda>x. x \<noteq> k) ks") auto
  then have "y = k" using hd_dropWhile[of "\<lambda>x. x \<noteq> k" ks] by (metis (full_types) \<open>dropWhile (\<lambda>x. x \<noteq> k) ks \<noteq> []\<close> list.sel(1))
  with d e have ks: "ks = takeWhile (\<lambda>x. x \<noteq> k) ks @ k # zs" by simp
  moreover have "distinct ks \<longrightarrow> k \<notin> set zs"
  proof
    assume "distinct ks"
    then have "distinct (takeWhile (\<lambda>x. x \<noteq> k) ks @ k # zs)" using ks by simp
    then show "k \<notin> set zs" by simp
  qed
  ultimately show ?thesis by blast
qed

lemma foldl_entry:
  assumes step: "\<And>m s k. \<exists>s'. step (m, s) k = (m, s') \<or> (\<exists>r. step (m, s) k = (m(k \<mapsto> r), s'))"
    and "distinct ks" "k \<in> set ks"
  shows "fst (foldl step (m, s) ks) k =
         fst (step (foldl step (m, s) (takeWhile (\<lambda>x. x \<noteq> k) ks)) k) k"
proof -
  from split_at_first[OF assms(3)] assms(2) obtain zs where
    ks: "ks = takeWhile (\<lambda>x. x \<noteq> k) ks @ k # zs" and nz: "k \<notin> set zs" by blast
  let ?pre = "takeWhile (\<lambda>x. x \<noteq> k) ks"
  obtain m1 s1 where st: "step (foldl step (m, s) ?pre) k = (m1, s1)"
    by (cases "step (foldl step (m, s) ?pre) k")
  have "foldl step (m, s) ks = foldl step (m, s) (?pre @ k # zs)"
    using ks by simp
  also have "\<dots> = foldl step (m1, s1) zs" using st by simp
  finally show ?thesis using foldl_keeps_other[of step k zs m1 s1, OF step nz] st by simp
qed

lemma filter_absent: "x \<notin> set xs \<Longrightarrow> filter (\<lambda>c. c \<noteq> x) xs = xs"
  by (induction xs) auto

subsection \<open>The loader\<close>

lemma without_id_Inr: "\<exists>g. without_id t f = Inr g"
  by (simp add: without_id_def drop_columns_def Let_def)

lemma without_id_columns:
  "without_id t f = Inr g \<Longrightarrow> (''id_'' @ t) \<notin> set (columns g)"
  by (auto simp: without_id_def drop_columns_def Let_def split: if_splits)

lemma load_table_shape:
  "\<exists>s'. load_table to_sql td (m, s) k = (m, s') \<or> (\<exists>r. load_table to_sql td (m, s) k = (m(k \<mapsto> r), s'))"
  by (auto simp: load_table_def split: option.splits sum.splits prod.splits)

lemma load_dom:
  "dom (fst (foldl (load_table to_sql td) (m, s) ks)) = dom m \<union> (set ks \<inter> dom td)"
proof (induction ks arbitrary: m s)
  case Nil
  then show ?case by simp
next
  case (Cons k ks)
  obtain m1 s1 where st: "load_table to_sql td (m, s) k = (m1, s1)"
    by (cases "load_table to_sql td (m, s) k")
  then have "dom m1 = dom m \<union> ({k} \<inter> dom td)"
    by (cases "td k") (auto simp: load_table_def split: sum.splits prod.splits option.splits if_splits)
  with Cons[of m1 s1] st show ?case by auto
qed

text \<open>  C3: the load never raises. Its result has an entry for exactly the tables of the load order
  that have a candidate frame. Every such table is attempted, on the store as the earlier
  tables left it, whether or not they failed: its entry is the failure with the cause that
  \<^verbatim>\<open>to_sql\<close> raised for it, or else the number of rows written.\<close>

theorem load_records_every_table:
  "\<exists>results engine'.
     load_data_to_database to_sql tables_data engine = (results, engine')
     \<and> dom results = set load_order \<inter> dom tables_data
     \<and> (\<forall>t f. t \<in> set load_order \<and> tables_data t = Some f \<longrightarrow>
           (\<exists>g. without_id t f = Inr g
              \<and> results t =
                  Some (case fst (to_sql t g (engine_before to_sql tables_data engine t)) of
                          None \<Rightarrow> Loaded (len g)
                        | Some e \<Rightarrow> Failed e)))"
proof -
  let ?step = "load_table to_sql tables_data"
  obtain results engine' where r: "load_data_to_database to_sql tables_data engine = (results, engine')"
    by (cases "load_data_to_database to_sql tables_data engine")
  have d: "dom results = set load_order \<inter> dom tables_data"
    using load_dom[of to_sql tables_data Map.empty engine load_order] r
    by (simp add: load_data_to_database_def)
  have e: "\<exists>g. without_id t f = Inr g
              \<and> results t =
                  Some (case fst (to_sql t g (engine_before to_sql tables_data engine t)) of
                          None \<Rightarrow> Loaded (len g)
                        | Some e \<Rightarrow> Failed e)"
    if t: "t \<in> set load_order" and f: "tables_data t = Some f" for t f
  proof -
    obtain g where g: "without_id t f = Inr g" using without_id_Inr by blast
    let ?pre = "foldl ?step (Map.empty, engine) (takeWhile (\<lambda>x. x \<noteq> t) load_order)"
    have dl: "distinct load_order" by (simp add: load_order_def)
    have "results t = fst (?step ?pre t) t"
      using foldl_entry[of ?step load_order t Map.empty engine, OF load_table_shape dl t] r
      by (simp add: load_data_to_database_def)
    moreover have "snd ?pre = engine_before to_sql tables_data engine t"
      by (simp add: engine_before_def)
    ultimately show ?thesis using f g
      by (cases ?pre) (auto simp: load_table_def split: option.splits prod.splits)
  qed
  from r d e show ?thesis by blast
qed

theorem load_records_every_table_witness:
  "\<exists>results.
     results = fst (load_data_to_database
        (\<lambda>t (f :: unit frame) (s :: unit).
           (if t = ''producto'' then Some (DBError ''conversion failed'') else None, s))
        [''producto'' \<mapsto> \<lparr>columns = [''id_producto'', ''precio''], rows = [(0, [Num 1, Str ''x''])]\<rparr>,
         ''pedido'' \<mapsto> \<lparr>columns = [''id_pedido'', ''fecha''], rows = [(0, [Num 1, Num 2])]\<rparr>]
        ())
     \<and> dom results = {''producto'', ''pedido''}
     \<and> results ''producto'' = Some (Failed (DBError ''conversion failed''))
     \<and> results ''pedido'' = Some (Loaded 1)"
proof -
  let ?to_sql = "\<lambda>t (f :: unit frame) (s :: unit).
           (if t = ''producto'' then Some (DBError ''conversion failed'') else None, s)"
  let ?fp = "\<lparr>columns = [''id_producto'', ''precio''], rows = [(0, [Num 1, Str ''x''])]\<rparr> :: unit frame"
  let ?fq = "\<lparr>columns = [''id_pedido'', ''fecha''], rows = [(0, [Num 1, Num 2])]\<rparr> :: unit frame"
  let ?td = "[''producto'' \<mapsto> ?fp, ''pedido'' \<mapsto> ?fq]"
  from load_records_every_table[of ?to_sql ?td "()"] obtain results e where
    r: "load_data_to_database ?to_sql ?td () = (results, e)"
    and d: "dom results = set load_order \<inter> dom ?td"
    and a: "\<And>t f. t \<in> set load_order \<Longrightarrow> ?td t = Some f \<Longrightarrow>
           (\<exists>g. without_id t f = Inr g
              \<and> results t =
                  Some (case fst (?to_sql t g (engine_before ?to_sql ?td () t)) of
                          None \<Rightarrow> Loaded (len g)
                        | Some e \<Rightarrow> Failed e))"
    by blast
  have "''producto'' \<in> set load_order" "?td ''producto'' = Some ?fp"
    by (simp_all add: load_order_def)
  from a[OF this] have p: "results ''producto'' = Some (Failed (DBError ''conversion failed''))"
    by auto
  have "''pedido'' \<in> set load_order" "?td ''pedido'' = Some ?fq"
    by (simp_all add: load_order_def)
  from a[OF this] have q: "results ''pedido'' = Some (Loaded 1)"
    by (auto simp: without_id_def drop_columns_def len_def)
  have "dom results = {''producto'', ''pedido''}"
    using d by (auto simp: load_order_def)
  with p q r show ?thesis by simp
qed

subsection \<open>What the loader hands to the store\<close>

lemma zip_without:
  "zip (filter (\<lambda>c. c \<noteq> x) cs) (map snd (filter (\<lambda>(c, v). c \<noteq> x) (zip cs r))) =
   filter (\<lambda>(c, v). c \<noteq> x) (zip cs r)"
proof (induction cs arbitrary: r)
  case Nil
  then show ?case by simp
next
  case (Cons a cs)
  then show ?case by (cases r) auto
qed

lemma length_without:
  "length r = length cs \<Longrightarrow>
   length (map snd (filter (\<lambda>(c, v). c \<noteq> x) (zip cs r))) = length (filter (\<lambda>c. c \<noteq> x) cs)"
proof (induction cs arbitrary: r)
  case Nil
  then show ?case by simp
next
  case (Cons a cs)
  then show ?case by (cases r) auto
qed

lemma cell_at_Cons: "cell_at (v # r) (Suc n) = cell_at r n" "cell_at (v # r) 0 = v"
  by (simp_all add: cell_at_def)

lemma value_without:
  "c \<noteq> x \<Longrightarrow> c \<in> set cs \<Longrightarrow>
   cell_at (map snd (filter (\<lambda>(c', v). c' \<noteq> x) (zip cs r))) (pos c (filter (\<lambda>c'. c' \<noteq> x) cs)) =
   cell_at r (pos c cs)"
proof (induction cs arbitrary: r)
  case Nil
  then show ?case by simp
next
  case (Cons a cs)
  show ?case
  proof (cases r)
    case Nil
    then show ?thesis by (simp add: cell_at_def)
  next
    case (Cons v r')
    show ?thesis
    proof (cases "a = c")
      case True
      with Cons Cons.prems show ?thesis by (simp add: cell_at_Cons)
    next
      case False
      with Cons.prems have "c \<in> set cs" by simp
      from Cons.IH[OF Cons.prems(1) this, of r'] False Cons show ?thesis
        by (simp add: cell_at_Cons)
    qed
  qed
qed

lemma without_id_handed_over:
  assumes "without_id t f = Inr g"
  shows "handed_over (''id_'' @ t) f g"
proof (cases "(''id_'' @ t) \<in> set (columns f)")
  case True
  let ?x = "''id_'' @ t"
  from assms True have g: "g = \<lparr>columns = filter (\<lambda>c. c \<noteq> ?x) (columns f),
      rows = map (\<lambda>(i, r). (i, map snd (filter (\<lambda>(c, v). c \<noteq> ?x) (zip (columns f) r)))) (rows f)\<rparr>"
    by (simp add: without_id_def drop_columns_def Let_def)
  have "list_all2
         (\<lambda>(i, r) (j, r').
            j = i
            \<and> zip (filter (\<lambda>c. c \<noteq> ?x) (columns f)) r' =
                filter (\<lambda>(c, v). c \<noteq> ?x) (zip (columns f) r)
            \<and> (length r = length (columns f) \<longrightarrow>
                 length r' = length (filter (\<lambda>c. c \<noteq> ?x) (columns f)))
            \<and> (\<forall>c \<in> set (filter (\<lambda>c. c \<noteq> ?x) (columns f)).
                 value_at (filter (\<lambda>c. c \<noteq> ?x) (columns f)) c r' = value_at (columns f) c r))
         rs (map (\<lambda>(i, r). (i, map snd (filter (\<lambda>(c, v). c \<noteq> ?x) (zip (columns f) r)))) rs)"
    for rs :: "(nat \<times> 'a cell list) list"
  proof (induction rs)
    case Nil
    then show ?case by simp
  next
    case (Cons p rs)
    obtain i r where p: "p = (i, r)" by (cases p)
    have 1: "zip (filter (\<lambda>c. c \<noteq> ?x) (columns f))
               (map snd (filter (\<lambda>(c, v). c \<noteq> ?x) (zip (columns f) r))) =
             filter (\<lambda>(c, v). c \<noteq> ?x) (zip (columns f) r)"
      by (rule zip_without)
    have 2: "length r = length (columns f) \<Longrightarrow>
             length (map snd (filter (\<lambda>(c, v). c \<noteq> ?x) (zip (columns f) r))) =
             length (filter (\<lambda>c. c \<noteq> ?x) (columns f))"
      by (rule length_without)
    have 3: "value_at (filter (\<lambda>c. c \<noteq> ?x) (columns f)) c
               (map snd (filter (\<lambda>(c, v). c \<noteq> ?x) (zip (columns f) r))) =
             value_at (columns f) c r"
      if "c \<in> set (filter (\<lambda>c. c \<noteq> ?x) (columns f))" for c
      unfolding value_at_def using that by (intro value_without) auto
    from Cons 1 2 3 show ?case unfolding p by (simp del: pos.simps)
  qed
  then show ?thesis unfolding handed_over_def g by simp
next
  case False
  with assms have g: "g = f" by (simp add: without_id_def Let_def)
  have z: "filter (\<lambda>(c, v). c \<noteq> ''id_'' @ t) (zip (columns f) r) = zip (columns f) r"
    for r :: "'a cell list"
  proof -
    have "\<forall>p \<in> set (zip (columns f) r). fst p \<noteq> ''id_'' @ t"
      using False by (auto dest: set_zip_leftD)
    then show ?thesis by (auto simp: filter_id_conv)
  qed
  have "list_all2
         (\<lambda>(i, r) (j, r').
            j = i
            \<and> zip (columns f) r' = filter (\<lambda>(c, v). c \<noteq> ''id_'' @ t) (zip (columns f) r)
            \<and> (length r = length (columns f) \<longrightarrow> length r' = length (columns f))
            \<and> (\<forall>c \<in> set (columns f). value_at (columns f) c r' = value_at (columns f) c r))
         (rows f) (rows f)"
    by (rule list_all2_refl, simp only: z, auto)
  then show ?thesis
    unfolding handed_over_def g using False by (simp add: filter_absent)
qed

lemma load_calls:
  "map fst (fst (snd (foldl (load_table (recording to_sql) td) (m, (calls, e)) ks))) =
   map fst calls @ filter (\<lambda>t. td t \<noteq> None) ks"
proof (induction ks arbitrary: m calls e)
  case Nil
  then show ?case by simp
next
  case (Cons k ks)
  show ?case
  proof (cases "td k")
    case None
    then have "load_table (recording to_sql) td (m, (calls, e)) k = (m, (calls, e))"
      by (simp add: load_table_def)
    with Cons[of m calls e] None show ?thesis by simp
  next
    case (Some f)
    obtain g where g: "without_id k f = Inr g" using without_id_Inr by blast
    obtain r e' where t: "to_sql k g e = (r, e')" by (cases "to_sql k g e")
    obtain m' where "load_table (recording to_sql) td (m, (calls, e)) k = (m', (calls @ [(k, g)], e'))"
      using Some g t by (cases r) (auto simp: load_table_def recording_def)
    with Cons[of m' "calls @ [(k, g)]" e'] Some show ?thesis by simp
  qed
qed

text \<open>  C7: the loader hands one frame to \<^verbatim>\<open>to_sql\<close> for each table of the load order
  that has a candidate, in load order. Every frame handed over has no column
  \<^verbatim>\<open>id_<table>\<close> and is the table's candidate without that column: the same rows in
  the same order, no cell of the identifier column left in any row, and under every other
  label the value the candidate holds there. A candidate that lacks the column is handed
  over unchanged.\<close>

theorem load_strips_id_column:
  "map fst (fst (snd (load_data_to_database (recording to_sql) tables_data ([], engine)))) =
     filter (\<lambda>t. tables_data t \<noteq> None) load_order
   \<and> (\<forall>(t, g) \<in> set (fst (snd (load_data_to_database (recording to_sql) tables_data ([], engine)))).
        t \<in> set load_order
        \<and> (''id_'' @ t) \<notin> set (columns g)
        \<and> (\<exists>f. tables_data t = Some f
               \<and> handed_over (''id_'' @ t) f g
               \<and> ((''id_'' @ t) \<notin> set (columns f) \<longrightarrow> g = f)))"
proof -
  let ?Q = "\<lambda>(t, g). t \<in> set load_order
     \<and> (''id_'' @ t) \<notin> set (columns g)
     \<and> (\<exists>f. tables_data t = Some f
            \<and> handed_over (''id_'' @ t) f g
            \<and> ((''id_'' @ t) \<notin> set (columns f) \<longrightarrow> g = f))"
  let ?P = "\<lambda>st. \<forall>x \<in> set (fst (snd st)). ?Q x"
  have "?P (foldl (load_table (recording to_sql) tables_data) (Map.empty, ([], engine)) load_order)"
  proof (rule foldl_invariant)
    show "?P (Map.empty, ([], engine))" by simp
  next
    fix st :: "(string \<rightharpoonup> load_result) \<times> ((string \<times> 'a frame) list \<times> 'b)" and k
    assume inv: "?P st" and k: "k \<in> set load_order"
    obtain m calls e where st: "st = (m, (calls, e))" by (cases st) auto
    show "?P (load_table (recording to_sql) tables_data st k)"
    proof (cases "tables_data k")
      case None
      then show ?thesis using inv st by (simp add: load_table_def)
    next
      case (Some f)
      obtain g where g: "without_id k f = Inr g" using without_id_Inr by blast
      have "(''id_'' @ k) \<notin> set (columns g)" by (rule without_id_columns[OF g])
      moreover have "handed_over (''id_'' @ k) f g" by (rule without_id_handed_over[OF g])
      moreover have "(''id_'' @ k) \<notin> set (columns f) \<longrightarrow> g = f"
        using g by (auto simp: without_id_def Let_def split: if_splits)
      ultimately have q: "?Q (k, g)" using k Some by simp
      obtain r e' where t: "to_sql k g e = (r, e')" by (cases "to_sql k g e")
      have "fst (snd (load_table (recording to_sql) tables_data st k)) = calls @ [(k, g)]"
        using st Some g t by (auto simp: load_table_def recording_def split: option.splits)
      then show ?thesis using inv st q by auto
    qed
  qed
  moreover have "map fst (fst (snd (load_data_to_database (recording to_sql) tables_data ([], engine)))) =
     filter (\<lambda>t. tables_data t \<noteq> None) load_order"
    using load_calls[of to_sql tables_data Map.empty "[]" engine load_order]
    by (simp add: load_data_to_database_def)
  ultimately show ?thesis by (simp add: load_data_to_database_def)
qed

theorem load_strips_id_column_witness:
  "map fst (fst (snd (load_data_to_database
          (recording (\<lambda>t (f :: unit frame) (s :: unit). (None, s)))
          [''producto'' \<mapsto> \<lparr>columns = [''id_producto'', ''precio''], rows = [(0, [Num 1, Str ''x''])]\<rparr>]
          ([], ())))) = [''producto'']
   \<and> (''producto'', \<lparr>columns = [''precio''], rows = [(0, [Str ''x''])]\<rparr>)
     \<in> set (fst (snd (load_data_to_database
          (recording (\<lambda>t (f :: unit frame) (s :: unit). (None, s)))
          [''producto'' \<mapsto> \<lparr>columns = [''id_producto'', ''precio''], rows = [(0, [Num 1, Str ''x''])]\<rparr>]
          ([], ()))))
   \<and> ''id_producto'' \<notin> set (columns (\<lparr>columns = [''precio''], rows = [(0, [Str ''x''])]\<rparr> :: unit frame))
   \<and> handed_over ''id_producto''
       (\<lparr>columns = [''id_producto'', ''precio''], rows = [(0, [Num 1, Str ''x''])]\<rparr> :: unit frame)
       \<lparr>columns = [''precio''], rows = [(0, [Str ''x''])]\<rparr>"
proof -
  let ?to_sql = "\<lambda>t (f :: unit frame) (s :: unit). (None :: error option, s)"
  let ?f = "\<lparr>columns = [''id_producto'', ''precio''], rows = [(0, [Num 1, Str ''x''])]\<rparr> :: unit frame"
  let ?td = "[''producto'' \<mapsto> ?f]"
  let ?g = "\<lparr>columns = [''precio''], rows = [(0, [Str ''x''])]\<rparr> :: unit frame"
  let ?calls = "fst (snd (load_data_to_database (recording ?to_sql) ?td ([], ())))"
  have m: "(''producto'', ?g) \<in> set ?calls"
    by (simp add: load_data_to_database_def load_order_def load_table_def recording_def
        without_id_def drop_columns_def)
  note t = load_strips_id_column[of ?to_sql ?td "()"]
  from t have n: "map fst ?calls = filter (\<lambda>t. ?td t \<noteq> None) load_order" by blast
  have "filter (\<lambda>t. ?td t \<noteq> None) load_order = [''producto'']"
    by (simp add: load_order_def)
  with n have names: "map fst ?calls = [''producto'']" by simp
  from t m have "(''id_'' @ ''producto'') \<notin> set (columns ?g)
      \<and> (\<exists>f. ?td ''producto'' = Some f \<and> handed_over (''id_'' @ ''producto'') f ?g)"
    by blast
  then have "''id_producto'' \<notin> set (columns ?g) \<and> handed_over ''id_producto'' ?f ?g"
    by simp
  with names m show ?thesis by blast
qed

subsection \<open>The validator\<close>

lemma count_table_shape:
  "\<exists>s'. count_table execute (m, s) k = (m, s') \<or> (\<exists>r. count_table execute (m, s) k = (m(k \<mapsto> r), s'))"
  by (auto simp: count_table_def split: sum.splits prod.splits)

lemma count_dom:
  "dom (fst (foldl (count_table execute) (m, s) ks)) = dom m \<union> set ks"
proof (induction ks arbitrary: m s)
  case Nil
  then show ?case by simp
next
  case (Cons k ks)
  obtain m1 s1 where st: "count_table execute (m, s) k = (m1, s1)"
    by (cases "count_table execute (m, s) k")
  then have "dom m1 = insert k (dom m)"
    by (auto simp: count_table_def split: sum.splits prod.splits if_splits)
  with Cons[of m1 s1] st show ?case by auto
qed

lemma count_queries:
  "fst (snd (foldl (count_table (recording_queries execute)) (m, (qs, c)) ks)) =
     qs @ map count_query ks"
proof (induction ks arbitrary: m qs c)
  case Nil
  then show ?case by simp
next
  case (Cons k ks)
  obtain r c' where e: "execute (count_query k) c = (r, c')" by (cases "execute (count_query k) c")
  then obtain m1 where "count_table (recording_queries execute) (m, (qs, c)) k = (m1, (qs @ [count_query k], c'))"
    by (cases r) (auto simp: count_table_def recording_queries_def)
  then show ?case using Cons[of m1 "qs @ [count_query k]" c'] by simp
qed

text \<open>
  C8: once connected, validation returns a mapping with an entry for every table of
  \<^verbatim>\<open>tables_to_check\<close>: the count, or the error of that table's query, each query run
  on the connection as the earlier queries left it, whether or not they failed. It issues
  exactly one count query per table, in order.
\<close>

theorem validate_partial_results:
  assumes "connect engine = Inr conn"
  shows "\<exists>counts.
     validate_data_integrity connect execute engine = Inr counts
     \<and> dom counts = set tables_to_check
     \<and> (\<forall>t \<in> set tables_to_check.
           counts t =
             Some (case fst (execute (count_query t) (conn_before execute conn t)) of
                     Inr n \<Rightarrow> Count n
                   | Inl e \<Rightarrow> CountError e))
     \<and> fst (snd (count_tables (recording_queries execute) ([], conn))) =
           map count_query tables_to_check"
proof -
  let ?step = "count_table execute"
  let ?counts = "fst (count_tables execute conn)"
  have v: "validate_data_integrity connect execute engine = Inr ?counts"
    using assms by (simp add: validate_data_integrity_def)
  have d: "dom ?counts = set tables_to_check"
    using count_dom[of execute Map.empty conn tables_to_check] by (simp add: count_tables_def)
  have e: "?counts t =
             Some (case fst (execute (count_query t) (conn_before execute conn t)) of
                     Inr n \<Rightarrow> Count n
                   | Inl e \<Rightarrow> CountError e)" if t: "t \<in> set tables_to_check" for t
  proof -
    let ?pre = "foldl ?step (Map.empty, conn) (takeWhile (\<lambda>x. x \<noteq> t) tables_to_check)"
    have dl: "distinct tables_to_check" by (simp add: tables_to_check_def)
    have "?counts t = fst (?step ?pre t) t"
      using foldl_entry[of ?step tables_to_check t Map.empty conn, OF count_table_shape dl t]
      by (simp add: count_tables_def)
    moreover have "snd ?pre = conn_before execute conn t"
      by (simp add: conn_before_def)
    ultimately show ?thesis
      by (cases ?pre) (auto simp: count_table_def split: sum.splits prod.splits)
  qed
  have q: "fst (snd (count_tables (recording_queries execute) ([], conn))) =
           map count_query tables_to_check"
    using count_queries[of execute Map.empty "[]" conn tables_to_check] by (simp add: count_tables_def)
  from v d e q show ?thesis by blast
qed

theorem validate_partial_results_witness:
  "\<exists>counts.
     validate_data_integrity (\<lambda>e :: unit. Inr e)
       (\<lambda>q (c :: unit). (if q = ''SELECT COUNT(*) FROM G2.producto''
                          then Inl (DBError ''timeout'') else Inr 3, c)) () = Inr counts
     \<and> dom counts = {''G2.cliente'', ''G2.trabajador'', ''G2.producto'', ''G2.pedido'',
                      ''G2.detalle_pedido''}
     \<and> counts ''G2.producto'' = Some (CountError (DBError ''timeout''))
     \<and> counts ''G2.pedido'' = Some (Count 3)"
proof -
  let ?connect = "\<lambda>e :: unit. (Inr e :: error + unit)"
  let ?execute = "\<lambda>q (c :: unit). (if q = ''SELECT COUNT(*) FROM G2.producto''
                          then Inl (DBError ''timeout'') else Inr (3 :: nat), c)"
  have c: "?connect () = Inr ()" by simp
  from validate_partial_results[of ?connect "()" "()" ?execute, OF c] obtain counts where
    v: "validate_data_integrity ?connect ?execute () = Inr counts"
    and d: "dom counts = set tables_to_check"
    and a: "\<And>t. t \<in> set tables_to_check \<Longrightarrow>
           counts t =
             Some (case fst (?execute (count_query t) (conn_before ?execute () t)) of
                     Inr n \<Rightarrow> Count n
                   | Inl e \<Rightarrow> CountError e)"
    by blast
  have "''G2.producto'' \<in> set tables_to_check" by (simp add: tables_to_check_def)
  from a[OF this] have p: "counts ''G2.producto'' = Some (CountError (DBError ''timeout''))"
    by (simp add: count_query_def)
  have "''G2.pedido'' \<in> set tables_to_check" by (simp add: tables_to_check_def)
  from a[OF this] have q: "counts ''G2.pedido'' = Some (Count 3)"
    by (simp add: count_query_def)
  from d have "dom counts = {''G2.cliente'', ''G2.trabajador'', ''G2.producto'', ''G2.pedido'',
                      ''G2.detalle_pedido''}" by (simp add: tables_to_check_def)
  with v p q show ?thesis by blast
qed

subsection \<open>The blocks of the extraction return new frames\<close>

lemma select_dropna_dedup_new:
  "a < length h \<Longrightarrow> returns_new (select_dropna_dedup a cs subs) h (clean (h ! a) cs subs)"
  by (simp add: returns_new_def select_dropna_dedup_def bind_def df_getitem_list_def df_dropna_def
      df_drop_duplicates_def new_frame_def clean_def nth_append split: sum.splits)

lemmas py_defs = bind_def return_def new_frame_def update_frame_def read_frame_def
  df_rename_def df_getitem_def df_columns_def df_setitem_def df_setitem_scalar_def

lemmas value_defs = renamed_def with_scalar_def with_optional_def with_copy_of_def

lemma rename_block_new:
  "a < length h \<Longrightarrow>
   returns_new (bind (select_dropna_dedup a cs subs) (\<lambda>t. df_rename t mapper)) h
     (renamed mapper (clean (h ! a) cs subs))"
  using select_dropna_dedup_new[of a h cs subs]
  by (auto simp: returns_new_def py_defs value_defs nth_append list_update_append split: sum.splits)

lemma copy_block_new:
  "a < length h \<Longrightarrow>
   returns_new (bind (select_dropna_dedup a cs subs) (\<lambda>t.
                bind (df_getitem t src) (\<lambda>s.
                bind (df_setitem t c s) (\<lambda>_.
                return t)))) h
     (with_copy_of src c (clean (h ! a) cs subs))"
  using select_dropna_dedup_new[of a h cs subs]
  by (auto simp: returns_new_def py_defs value_defs nth_append list_update_append split: sum.splits)

lemma rename_scalar_block_new:
  "a < length h \<Longrightarrow>
   returns_new (bind (select_dropna_dedup a cs subs) (\<lambda>b.
                bind (df_rename b mapper) (\<lambda>t.
                bind (df_setitem_scalar t c x) (\<lambda>_.
                return t)))) h
     (with_scalar c x (renamed mapper (clean (h ! a) cs subs)))"
  using select_dropna_dedup_new[of a h cs subs]
  by (auto simp: returns_new_def py_defs value_defs nth_append list_update_append split: sum.splits)

lemma rename_optional_block_new:
  "a < length h \<Longrightarrow>
   returns_new (bind (select_dropna_dedup a cs subs) (\<lambda>b.
                bind (df_rename b mapper) (\<lambda>t.
                bind (df_columns a) (\<lambda>cols.
                bind (if src \<in> set cols
                      then bind (df_getitem a src) (\<lambda>s. df_setitem t c s)
                      else return ()) (\<lambda>_.
                return t))))) h
     (with_optional (h ! a) src c (renamed mapper (clean (h ! a) cs subs)))"
  using select_dropna_dedup_new[of a h cs subs]
  by (auto simp: returns_new_def py_defs value_defs nth_append list_update_append split: sum.splits)

lemma optional_scalar_block_new:
  "a < length h \<Longrightarrow>
   returns_new (bind (select_dropna_dedup a cs subs) (\<lambda>t.
                bind (df_columns a) (\<lambda>cols.
                bind (if src \<in> set cols
                      then bind (df_getitem a src) (\<lambda>s. df_setitem t c s)
                      else return ()) (\<lambda>_.
                bind (df_setitem_scalar t d x) (\<lambda>_.
                return t))))) h
     (with_scalar d x (with_optional (h ! a) src c (clean (h ! a) cs subs)))"
  using select_dropna_dedup_new[of a h cs subs]
  by (auto simp: returns_new_def py_defs value_defs nth_append list_update_append split: sum.splits)

lemma block_new:
  assumes "a < length h"
  shows "returns_new (tipo_documento a) h (tipo_documento_of (h ! a))"
    and "returns_new (canal_cliente a) h (canal_cliente_of (h ! a))"
    and "returns_new (tipo_pago a) h (tipo_pago_of (h ! a))"
    and "returns_new (cargo_trabajador a) h (cargo_trabajador_of (h ! a))"
    and "returns_new (marca_producto a) h (marca_producto_of (h ! a))"
    and "returns_new (categoria_producto a) h (categoria_producto_of (h ! a))"
    and "returns_new (trabajador a) h (trabajador_of (h ! a))"
    and "returns_new (cliente a) h (cliente_of (h ! a))"
    and "returns_new (producto a) h (producto_of (h ! a))"
    and "returns_new (pedido a) h (pedido_of (h ! a))"
    and "returns_new (detalle_pedido a) h (detalle_pedido_of (h ! a))"
  unfolding tipo_documento_def tipo_documento_of_def canal_cliente_def canal_cliente_of_def
    tipo_pago_def tipo_pago_of_def cargo_trabajador_def cargo_trabajador_of_def
    marca_producto_def marca_producto_of_def categoria_producto_def categoria_producto_of_def
    trabajador_def trabajador_of_def cliente_def cliente_of_def producto_def producto_of_def
    pedido_def pedido_of_def detalle_pedido_def detalle_pedido_of_def
  by (rule rename_block_new copy_block_new rename_scalar_block_new rename_optional_block_new
      optional_scalar_block_new select_dropna_dedup_new, rule assms)+

lemma bind_assoc: "bind (bind m f) g = bind m (\<lambda>x. bind (f x) g)"
  by (rule ext) (simp add: bind_def split: sum.splits)

lemma return_bind: "bind (return x) f = f x"
  by (rule ext) (simp add: bind_def return_def)

lemma extract_as_blocks: "extract_table_data df = run_blocks blocks df"
  by (simp add: extract_table_data_def blocks_def bind_assoc return_bind)

lemma run_blocks_new:
  assumes "list_all2 (\<lambda>(n, b) (n', v). n = n' \<and> (\<forall>h. a < length h \<longrightarrow> returns_new (b a) h (v (h ! a)))) bs vs"
    and "a < length h"
  shows "tables_of (run_blocks bs a h) = collect vs (h ! a) \<and> fresh_tables h (run_blocks bs a h)"
  using assms
proof (induction bs vs arbitrary: h rule: list_all2_induct)
  case Nil
  then show ?case by (simp add: tables_of_def fresh_tables_def return_def)
next
  case (Cons x bs y vs)
  obtain n b where x: "x = (n, b)" by (cases x)
  obtain n' v where y: "y = (n', v)" by (cases y)
  from Cons.hyps(1) x y Cons.prems have nn: "n' = n" and rn: "returns_new (b a) h (v (h ! a))"
    by auto
  show ?case
  proof (cases "b a h")
    case (Inl e)
    with rn show ?thesis
      by (simp add: x y nn returns_new_def tables_of_def fresh_tables_def bind_def)
  next
    case (Inr p)
    obtain t h1 where p: "p = (t, h1)" by (cases p)
    from rn Inr p obtain new1 where t: "length h \<le> t" "t < length h1" and h1: "h1 = h @ new1"
      and v: "v (h ! a) = Inr (h1 ! t)"
      by (auto simp: returns_new_def)
    have a1: "a < length h1" using Cons.prems h1 by simp
    have same: "h1 ! a = h ! a" using Cons.prems h1 by (simp add: nth_append)
    from Cons.IH[OF a1] same
    have ih: "tables_of (run_blocks bs a h1) = collect vs (h ! a)"
      "fresh_tables h1 (run_blocks bs a h1)" by simp_all
    show ?thesis
    proof (cases "run_blocks bs a h1")
      case (Inl e)
      with ih(1) have "collect vs (h ! a) = Inl e" by (simp add: tables_of_def)
      with Inl \<open>b a h = Inr p\<close> p v show ?thesis
        by (simp add: x y nn tables_of_def fresh_tables_def bind_def)
    next
      case (Inr q)
      obtain ts h2 where q: "q = (ts, h2)" by (cases q)
      from ih(2) Inr q obtain new2 where h2: "h2 = h1 @ new2"
        and fr: "list_all (\<lambda>(name, t). length h1 \<le> t \<and> t < length h2) ts"
        by (auto simp: fresh_tables_def)
      have tt: "h2 ! t = h1 ! t" using t h2 by (simp add: nth_append)
      have r: "run_blocks (x # bs) a h = Inr ((n, t) # ts, h2)"
        using \<open>b a h = Inr p\<close> p Inr q by (simp add: x bind_def return_def)
      from ih(1) Inr q have "collect vs (h ! a) = Inr (map (\<lambda>(name, t). (name, h2 ! t)) ts)"
        by (simp add: tables_of_def)
      then have c: "collect (y # vs) (h ! a) = Inr ((n, h2 ! t) # map (\<lambda>(name, t). (name, h2 ! t)) ts)"
        using v tt by (simp add: y nn)
      have f: "list_all (\<lambda>(name, t). length h \<le> t \<and> t < length h2) ((n, t) # ts)"
        using fr t h1 h2 by (auto simp: list_all_iff)
      from r c f h1 h2 show ?thesis by (simp add: tables_of_def fresh_tables_def)
    qed
  qed
qed

lemma extract_new:
  assumes "a < length h"
  shows "tables_of (extract_table_data a h) = candidate_frames (h ! a)"
    and "fresh_tables h (extract_table_data a h)"
proof -
  have "list_all2 (\<lambda>(n, b) (n', v). n = n' \<and> (\<forall>h. a < length h \<longrightarrow> returns_new (b a) h (v (h ! a))))
          (blocks :: (string \<times> (nat \<Rightarrow> ('a, nat) py)) list) candidates"
    by (simp add: blocks_def candidates_def block_new)
  from run_blocks_new[OF this assms]
  show "tables_of (extract_table_data a h) = candidate_frames (h ! a)"
    and "fresh_tables h (extract_table_data a h)"
    by (simp_all add: extract_as_blocks candidate_frames_def)
qed

subsection \<open>The frames the blocks compute\<close>

lemma missing_none: "missing f cs = [] \<longleftrightarrow> set cs \<subseteq> set (columns f)"
  by (auto simp: missing_def filter_empty_conv)

lemma first_seen_subseq_labels: "set (first_seen seen rs) \<subseteq> set rs"
  by (induction seen rs rule: first_seen.induct) auto

lemma first_seen_distinct_labels:
  "distinct (map fst rs) \<Longrightarrow> distinct (map fst (first_seen seen rs))"
proof (induction seen rs rule: first_seen.induct)
  case (1 seen)
  then show ?case by simp
next
  case (2 seen i r rs)
  have "i \<notin> fst ` set (first_seen (r # seen) rs)"
    using 2(3) first_seen_subseq_labels[of "r # seen" rs] by auto
  with 2 show ?case by auto
qed

lemma labels_kept: "map fst (map (\<lambda>(i, r). (i, g i r)) xs) = map fst xs"
  by (induction xs) auto

lemma clean_ok:
  assumes "set cs \<subseteq> set (columns f)" "set subs \<subseteq> set cs"
  shows "clean f cs subs = Inr \<lparr>columns = cs, rows = clean_rows f cs subs\<rparr>"
  using assms
  by (simp add: clean_def getitem_list_def dropna_def missing_none drop_duplicates_def
      clean_rows_def project_def)

lemma clean_rows_distinct:
  "distinct (map fst (rows f)) \<Longrightarrow> distinct (map fst (clean_rows f cs subs))"
proof -
  assume d: "distinct (map fst (rows f))"
  have "map fst (map (\<lambda>(i, r). (i, project (columns f) cs r)) (rows f)) = map fst (rows f)"
    by (rule labels_kept)
  then have "distinct (map fst (map (\<lambda>(i, r). (i, project (columns f) cs r)) (rows f)))"
    using d by (simp only:)
  then have "distinct (map fst (filter (\<lambda>(i, r). list_all (\<lambda>c. value_at cs c r \<noteq> NaN) subs)
          (map (\<lambda>(i, r). (i, project (columns f) cs r)) (rows f))))"
    by (rule distinct_map_filter)
  then show ?thesis unfolding clean_rows_def by (rule first_seen_distinct_labels)
qed

lemma clean_rows_empty: "rows f = [] \<Longrightarrow> clean_rows f cs subs = []"
  by (simp add: clean_rows_def)

lemma set_column_new:
  "c \<notin> set (columns g) \<Longrightarrow>
   set_column g c vs =
     \<lparr>columns = columns g @ [c], rows = map (\<lambda>((i, r), v). (i, r @ [v])) (zip (rows g) vs)\<rparr>"
  by (simp add: set_column_def)

lemma zip_with_own_labels:
  "map (\<lambda>((i, r), v). (i, r @ [v])) (zip rs (map (\<lambda>(i, r). k i r) rs)) =
   map (\<lambda>(i, r). (i, r @ [k i r])) rs"
  by (induction rs) auto

lemma reindex_own_labels:
  "distinct (map fst s) \<Longrightarrow> reindex s (map fst s) = map snd s"
proof -
  assume d: "distinct (map fst s)"
  have "\<And>p. p \<in> set s \<Longrightarrow> map_of s (fst p) = Some (snd p)"
    using d by (simp add: map_of_is_SomeI)
  then show ?thesis by (simp add: reindex_def)
qed

lemma zip_reindex:
  "map (\<lambda>((i, r), v). (i, r @ [v])) (zip rs (reindex s (map fst rs))) =
   map (\<lambda>(i, r). (i, r @ [at_label s i])) rs"
  by (induction rs) (auto simp: reindex_def at_label_def)

lemma zip_same_labels:
  assumes "distinct (map fst s)" "map fst s = map fst rs"
  shows "map (\<lambda>((i, r), v). (i, r @ [v])) (zip rs (map snd s)) =
         map (\<lambda>(i, r). (i, r @ [at_label s i])) rs"
proof -
  have "map snd s = reindex s (map fst rs)"
    using reindex_own_labels[OF assms(1)] assms(2) by simp
  then show ?thesis by (simp only: zip_reindex)
qed

lemma zip_filled:
  "map (\<lambda>((i, r), v). (i, r @ [v])) (zip (map (\<lambda>(i, v). (i, blank)) s) (map snd s)) =
   map (\<lambda>(i, v). (i, blank @ [v])) s"
  by (induction s) auto

lemma setitem_aligned:
  "map fst s = map fst (rows (ensure_valid_index g s)) \<Longrightarrow>
   setitem g c s = Inr (set_column (ensure_valid_index g s) c (map snd s))"
  by (simp add: setitem_def Let_def)

lemma setitem_new_column:
  assumes "distinct (map fst s)" "c \<notin> set (columns g)"
  shows "setitem g c s =
     Inr \<lparr>columns = columns g @ [c],
          rows = (if rows g = [] \<and> s \<noteq> []
                  then map (\<lambda>(i, v). (i, replicate (length (columns g)) NaN @ [v])) s
                  else map (\<lambda>(i, r). (i, r @ [at_label s i])) (rows g))\<rparr>"
proof (cases "rows g = [] \<and> s \<noteq> []")
  case True
  then have e: "ensure_valid_index g s =
      g\<lparr>rows := map (\<lambda>(i, v). (i, replicate (length (columns g)) NaN)) s\<rparr>"
    by (simp add: ensure_valid_index_def)
  have l: "map fst (map (\<lambda>(i, v). (i, replicate (length (columns g)) NaN)) s) = map fst s"
    by (rule labels_kept)
  have "rows (ensure_valid_index g s) = map (\<lambda>(i, v). (i, replicate (length (columns g)) NaN)) s"
    unfolding e by simp
  then have "map fst s = map fst (rows (ensure_valid_index g s))"
    using l by metis
  then have "setitem g c s = Inr (set_column (ensure_valid_index g s) c (map snd s))"
    by (rule setitem_aligned)
  also have "set_column (ensure_valid_index g s) c (map snd s) =
      \<lparr>columns = columns g @ [c],
       rows = map (\<lambda>(i, v). (i, replicate (length (columns g)) NaN @ [v])) s\<rparr>"
    unfolding e using assms(2) by (simp add: set_column_new zip_filled)
  finally show ?thesis using True by simp
next
  case False
  then have e: "ensure_valid_index g s = g"
    by (auto simp: ensure_valid_index_def)
  show ?thesis
  proof (cases "map fst s = map fst (rows g)")
    case True
    with False assms show ?thesis
      by (simp add: setitem_def e Let_def set_column_new zip_same_labels)
  next
    case neq: False
    show ?thesis
    proof (cases "rows g = []")
      case True
      with False have "s = []" by simp
      with True neq show ?thesis by simp
    next
      case False
      with neq \<open>\<not> (rows g = [] \<and> s \<noteq> [])\<close> assms show ?thesis
        by (simp add: setitem_def e Let_def set_column_new zip_reindex)
    qed
  qed
qed

lemma getitem_ok:
  "c \<in> set (columns f) \<Longrightarrow>
   getitem f c = Inr (map (\<lambda>(i, r). (i, value_at (columns f) c r)) (rows f))"
  by (simp add: getitem_def)

lemma setitem_scalar_new:
  "c \<notin> set (columns g) \<Longrightarrow>
   setitem_scalar g c v = \<lparr>columns = columns g @ [c], rows = map (\<lambda>(i, r). (i, r @ [v])) (rows g)\<rparr>"
proof -
  have "map (\<lambda>((i, r), x). (i, r @ [x])) (zip rs (replicate (length rs) v)) =
        map (\<lambda>(i, r). (i, r @ [v])) rs" for rs :: "(nat \<times> 'a cell list) list"
    by (induction rs) auto
  then show ?thesis if "c \<notin> set (columns g)"
    using that by (simp add: setitem_scalar_def set_column_new)
qed

lemma renamed_clean_ok:
  assumes "set cs \<subseteq> set (columns f)" "set subs \<subseteq> set cs"
  shows "renamed m (clean f cs subs) =
         Inr \<lparr>columns = map (\<lambda>c. case map_of m c of None \<Rightarrow> c | Some c' \<Rightarrow> c') cs,
              rows = clean_rows f cs subs\<rparr>"
  by (simp add: clean_ok[OF assms] renamed_def rename_def)

lemma with_scalar_ok:
  "c \<notin> set cs \<Longrightarrow>
   with_scalar c v (Inr \<lparr>columns = cs, rows = rs\<rparr>) =
     Inr \<lparr>columns = cs @ [c], rows = map (\<lambda>(i, r). (i, r @ [v])) rs\<rparr>"
  by (simp add: with_scalar_def setitem_scalar_new)

lemma with_copy_of_ok:
  assumes "src \<in> set cs" "c \<notin> set cs"
  shows "with_copy_of src c (Inr \<lparr>columns = cs, rows = rs\<rparr>) =
     Inr \<lparr>columns = cs @ [c], rows = map (\<lambda>(i, r). (i, r @ [value_at cs src r])) rs\<rparr>"
proof -
  let ?g = "\<lparr>columns = cs, rows = rs\<rparr>"
  let ?s = "map (\<lambda>(i, r). (i, value_at cs src r)) rs"
  have g: "getitem ?g src = Inr ?s" using assms(1) by (simp add: getitem_def)
  have e: "ensure_valid_index ?g ?s = ?g" by (simp add: ensure_valid_index_def)
  have "map fst ?s = map fst (rows (ensure_valid_index ?g ?s))"
    unfolding e using labels_kept[of "\<lambda>i r. value_at cs src r" rs] by simp
  then have "setitem ?g c ?s = Inr (set_column (ensure_valid_index ?g ?s) c (map snd ?s))"
    by (rule setitem_aligned)
  also have "set_column (ensure_valid_index ?g ?s) c (map snd ?s) =
       \<lparr>columns = cs @ [c], rows = map (\<lambda>(i, r). (i, r @ [value_at cs src r])) rs\<rparr>"
  proof -
    have z: "map (\<lambda>((i, r), v). (i, r @ [v])) (zip rs (map snd ?s)) =
          map (\<lambda>(i, r). (i, r @ [value_at cs src r])) rs"
      by (induction rs) auto
    have sc: "set_column ?g c (map snd ?s) =
          \<lparr>columns = cs @ [c], rows = map (\<lambda>((i, r), v). (i, r @ [v])) (zip rs (map snd ?s))\<rparr>"
      using assms(2) by (simp add: set_column_new)
    show ?thesis unfolding e sc by (simp only: z)
  qed
  finally show ?thesis using g by (simp add: with_copy_of_def)
qed

lemma with_optional_absent:
  "src \<notin> set (columns f) \<Longrightarrow> with_optional f src c (Inr g) = Inr g"
  by (simp add: with_optional_def)

lemma with_optional_present:
  assumes "src \<in> set (columns f)" "distinct (map fst (rows f))" "c \<notin> set cs"
  shows "with_optional f src c (Inr \<lparr>columns = cs, rows = rs\<rparr>) =
     Inr \<lparr>columns = cs @ [c], rows = with_source_column f src (length cs) rs\<rparr>"
proof -
  have "map fst (source_column f src) = map fst (rows f)"
    unfolding source_column_def by (rule labels_kept)
  then have d: "distinct (map fst (source_column f src))"
    using assms(2) by (simp only:)
  have g: "getitem f src = Inr (source_column f src)"
    using assms(1) by (simp add: getitem_def source_column_def)
  have n: "source_column f src \<noteq> [] \<longleftrightarrow> rows f \<noteq> []" by (simp add: source_column_def)
  show ?thesis
    using assms(1) setitem_new_column[OF d, of c "\<lparr>columns = cs, rows = rs\<rparr>"] assms(3) n
    by (simp add: with_optional_def g with_source_column_def)
qed

lemma tipo_documento_of_ok:
  assumes "set required_columns \<subseteq> set (columns f)"
  shows "tipo_documento_of f =
     Inr \<lparr>columns = [''id_tipo_documento'', ''nombre'', ''descripcion''],
          rows = clean_rows f [''id_tipo_documento'', ''nombre'', ''descripcion'']
                   [''id_tipo_documento'']\<rparr>"
proof -
  have cs: "set [''id_tipo_documento'', ''nombre'', ''descripcion''] \<subseteq> set (columns f)"
    using assms(1) by (simp add: required_columns_def)
  show ?thesis
    using renamed_clean_ok[OF cs, of "[''id_tipo_documento'']"]
    by (simp add: tipo_documento_of_def)
qed

lemma canal_cliente_of_ok:
  assumes "set required_columns \<subseteq> set (columns f)"
  shows "canal_cliente_of f =
     Inr \<lparr>columns = [''id_canal_cliente'', ''nombre'', ''descripcion''],
          rows = clean_rows f [''id_canal_cliente'', ''nombre.1'', ''descripcion.1'']
                   [''id_canal_cliente'']\<rparr>"
proof -
  have cs: "set [''id_canal_cliente'', ''nombre.1'', ''descripcion.1''] \<subseteq> set (columns f)"
    using assms(1) by (simp add: required_columns_def)
  show ?thesis
    using renamed_clean_ok[OF cs, of "[''id_canal_cliente'']"]
    by (simp add: canal_cliente_of_def)
qed

lemma tipo_pago_of_ok:
  assumes "set required_columns \<subseteq> set (columns f)"
  shows "tipo_pago_of f =
     Inr \<lparr>columns = [''id_tipo_pago'', ''nombre_tipo_pago'', ''descripcion''],
          rows = clean_rows f [''id_tipo_pago'', ''nombre_tipo_pago'', ''descripcion.2'']
                   [''id_tipo_pago'']\<rparr>"
proof -
  have cs: "set [''id_tipo_pago'', ''nombre_tipo_pago'', ''descripcion.2''] \<subseteq> set (columns f)"
    using assms(1) by (simp add: required_columns_def)
  show ?thesis
    using renamed_clean_ok[OF cs, of "[''id_tipo_pago'']"]
    by (simp add: tipo_pago_of_def)
qed

lemma cargo_trabajador_of_ok:
  assumes "set required_columns \<subseteq> set (columns f)"
  shows "cargo_trabajador_of f =
     Inr \<lparr>columns = [''id_cargo_trabajador'', ''nombre_cargo'', ''descripcion''],
          rows = clean_rows f [''id_cargo_trabajador'', ''nombre.2'', ''descripcion.4'']
                   [''id_cargo_trabajador'']\<rparr>"
proof -
  have cs: "set [''id_cargo_trabajador'', ''nombre.2'', ''descripcion.4''] \<subseteq> set (columns f)"
    using assms(1) by (simp add: required_columns_def)
  show ?thesis
    using renamed_clean_ok[OF cs, of "[''id_cargo_trabajador'']"]
    by (simp add: cargo_trabajador_of_def)
qed

lemma marca_producto_of_ok:
  assumes "set required_columns \<subseteq> set (columns f)"
  shows "marca_producto_of f =
     Inr \<lparr>columns = [''id_marca_producto'', ''nombre_marca'', ''descripcion''],
          rows = map (\<lambda>(i, r). (i, r @ [value_at [''id_marca_producto'', ''nombre_marca''] ''nombre_marca'' r]))
                  (clean_rows f [''id_marca_producto'', ''nombre_marca'']
                   [''id_marca_producto''])\<rparr>"
proof -
  have cs: "set [''id_marca_producto'', ''nombre_marca''] \<subseteq> set (columns f)"
    using assms(1) by (simp add: required_columns_def)
  show ?thesis
    using clean_ok[OF cs, of "[''id_marca_producto'']"]
    by (simp add: marca_producto_of_def with_copy_of_ok)
qed

lemma categoria_producto_of_ok:
  assumes "set required_columns \<subseteq> set (columns f)"
  shows "categoria_producto_of f =
     Inr \<lparr>columns = [''id_categoria_producto'', ''nombre_categoria'', ''descripcion''],
          rows = clean_rows f [''id_categoria_producto'', ''nombre_categoria'',
                          ''descripcion.5'']
                   [''id_categoria_producto'']\<rparr>"
proof -
  have cs: "set [''id_categoria_producto'', ''nombre_categoria'', ''descripcion.5''] \<subseteq> set (columns f)"
    using assms(1) by (simp add: required_columns_def)
  show ?thesis
    using renamed_clean_ok[OF cs, of "[''id_categoria_producto'']"]
    by (simp add: categoria_producto_of_def)
qed

lemma trabajador_of_ok:
  assumes "set required_columns \<subseteq> set (columns f)"
  shows "trabajador_of f =
     Inr \<lparr>columns = [''id_trabajador'', ''nombres'', ''email'', ''telefono'',
                      ''id_cargo_trabajador'', ''apellidos''],
          rows = map (\<lambda>(i, r). (i, r @ [Str []]))
                  (clean_rows f [''id_trabajador'', ''nombre trabajador'', ''correo'',
                          ''telefono.1'', ''id_cargo_trabajador'']
                   [''id_trabajador''])\<rparr>"
proof -
  have cs: "set [''id_trabajador'', ''nombre trabajador'', ''correo'', ''telefono.1'',
                 ''id_cargo_trabajador''] \<subseteq> set (columns f)"
    using assms(1) by (simp add: required_columns_def)
  show ?thesis
    using renamed_clean_ok[OF cs, of "[''id_trabajador'']"]
    by (simp add: trabajador_of_def with_scalar_ok)
qed

lemma cliente_of_ok:
  assumes "set required_columns \<subseteq> set (columns f)"
  shows "cliente_of f =
     Inr \<lparr>columns = [''id_cliente'', ''nombre_cliente'', ''numero_documento'',
                      ''email'', ''telefono'', ''direccion'', ''id_tipo_documento'',
                      ''id_canal_cliente''],
          rows = clean_rows f [''id_cliente'', ''nombre_cliente'', ''numero_documento'',
                          ''correo.1'', ''telefono.2'', ''direccion'',
                          ''id_tipo_documento'', ''id_canal_cliente'']
                   [''id_cliente'']\<rparr>"
proof -
  have cs: "set [''id_cliente'', ''nombre_cliente'', ''numero_documento'',
                 ''correo.1'', ''telefono.2'', ''direccion'', ''id_tipo_documento'',
                 ''id_canal_cliente''] \<subseteq> set (columns f)"
    using assms(1) by (simp add: required_columns_def)
  show ?thesis
    using renamed_clean_ok[OF cs, of "[''id_cliente'']"]
    by (simp add: cliente_of_def)
qed

lemma producto_of_absent:
  assumes "set required_columns \<subseteq> set (columns f)" "''codigo_formato_producto'' \<notin> set (columns f)"
  shows "producto_of f =
     Inr \<lparr>columns = [''id_producto'', ''descripcion'', ''precio'',
                      ''id_marca_producto'', ''id_categoria_producto''],
          rows = clean_rows f [''id_producto'', ''descripcion.6'', ''precio'',
                          ''id_marca_producto'', ''id_categoria_producto'']
                   [''id_producto'']\<rparr>"
proof -
  have cs: "set [''id_producto'', ''descripcion.6'', ''precio'', ''id_marca_producto'',
                 ''id_categoria_producto''] \<subseteq> set (columns f)"
    using assms(1) by (simp add: required_columns_def)
  show ?thesis
    using renamed_clean_ok[OF cs, of "[''id_producto'']"] assms(2)
    by (simp add: producto_of_def with_optional_absent with_scalar_ok)
qed

lemma producto_of_present:
  assumes "set required_columns \<subseteq> set (columns f)" "''codigo_formato_producto'' \<in> set (columns f)"
    and "distinct (map fst (rows f))"
  shows "producto_of f =
     Inr \<lparr>columns = [''id_producto'', ''descripcion'', ''precio'',
                      ''id_marca_producto'', ''id_categoria_producto'',
                      ''id_formato_producto''],
          rows = with_source_column f ''codigo_formato_producto'' 5
                  (clean_rows f [''id_producto'', ''descripcion.6'', ''precio'',
                          ''id_marca_producto'', ''id_categoria_producto'']
                   [''id_producto''])\<rparr>"
proof -
  have cs: "set [''id_producto'', ''descripcion.6'', ''precio'', ''id_marca_producto'',
                 ''id_categoria_producto''] \<subseteq> set (columns f)"
    using assms(1) by (simp add: required_columns_def)
  show ?thesis
    using renamed_clean_ok[OF cs, of "[''id_producto'']"] with_optional_present[OF assms(2,3)]
    by (simp add: producto_of_def with_scalar_ok eval_nat_numeral)
qed

lemma pedido_of_ok:
  assumes "set required_columns \<subseteq> set (columns f)"
  shows "pedido_of f =
     Inr \<lparr>columns = [''id_pedido'', ''id_trabajador'', ''id_cliente'',
                      ''id_tipo_pago'', ''fecha'', ''monto_total''],
          rows = clean_rows f [''id_pedido'', ''id_trabajador'', ''id_cliente'',
                          ''id_tipo_pago'', ''fecha'', ''monto_total'']
                   [''id_pedido'']\<rparr>"
proof -
  have cs: "set [''id_pedido'', ''id_trabajador'', ''id_cliente'', ''id_tipo_pago'',
                 ''fecha'', ''monto_total''] \<subseteq> set (columns f)"
    using assms(1) by (simp add: required_columns_def)
  show ?thesis
    using clean_ok[OF cs, of "[''id_pedido'']"]
    by (simp add: pedido_of_def)
qed

lemma detalle_pedido_of_absent:
  assumes "set required_columns \<subseteq> set (columns f)" "''id_promocion'' \<notin> set (columns f)"
  shows "detalle_pedido_of f =
     Inr \<lparr>columns = [''id_detalle_pedido'', ''id_pedido'', ''id_producto'',
                      ''cantidad'', ''precio_unitario'', ''descuento''],
          rows = map (\<lambda>(i, r). (i, r @ [Num 0]))
                  (clean_rows f [''id_detalle_pedido'', ''id_pedido'', ''id_producto'',
                          ''cantidad'', ''precio_unitario'']
                   [''id_detalle_pedido''])\<rparr>"
proof -
  have cs: "set [''id_detalle_pedido'', ''id_pedido'', ''id_producto'', ''cantidad'',
                 ''precio_unitario''] \<subseteq> set (columns f)"
    using assms(1) by (simp add: required_columns_def)
  show ?thesis
    using clean_ok[OF cs, of "[''id_detalle_pedido'']"] assms(2)
    by (simp add: detalle_pedido_of_def with_optional_absent with_scalar_ok)
qed

lemma detalle_pedido_of_present:
  assumes "set required_columns \<subseteq> set (columns f)" "''id_promocion'' \<in> set (columns f)"
    and "distinct (map fst (rows f))"
  shows "detalle_pedido_of f =
     Inr \<lparr>columns = [''id_detalle_pedido'', ''id_pedido'', ''id_producto'',
                      ''cantidad'', ''precio_unitario'', ''id_promocion'',
                      ''descuento''],
          rows = map (\<lambda>(i, r). (i, r @ [Num 0]))
                  (with_source_column f ''id_promocion'' 5
                  (clean_rows f [''id_detalle_pedido'', ''id_pedido'', ''id_producto'',
                          ''cantidad'', ''precio_unitario'']
                   [''id_detalle_pedido'']))\<rparr>"
proof -
  have cs: "set [''id_detalle_pedido'', ''id_pedido'', ''id_producto'', ''cantidad'',
                 ''precio_unitario''] \<subseteq> set (columns f)"
    using assms(1) by (simp add: required_columns_def)
  show ?thesis
    using clean_ok[OF cs, of "[''id_detalle_pedido'']"] with_optional_present[OF assms(2,3)]
    by (simp add: detalle_pedido_of_def with_scalar_ok eval_nat_numeral)
qed

lemma collect_names: "collect vs f = Inr gs \<Longrightarrow> map fst gs = map fst vs"
  by (induction vs f arbitrary: gs rule: collect.induct) (auto split: sum.splits)

lemma collect_total:
  "list_all (\<lambda>(n, v). \<exists>g. v f = Inr g) vs \<Longrightarrow> \<exists>gs. collect vs f = Inr gs"
  by (induction vs f rule: collect.induct) (auto split: sum.splits)

lemma collect_lookup:
  "collect vs f = Inr gs \<Longrightarrow> map_of vs n = Some v \<Longrightarrow> \<exists>g. v f = Inr g \<and> map_of gs n = Some g"
  by (induction vs f arbitrary: gs rule: collect.induct) (auto split: sum.splits if_splits)

lemma collect_all:
  "collect vs f = Inr gs \<Longrightarrow> list_all (\<lambda>(n, v). \<forall>g. v f = Inr g \<longrightarrow> P g) vs \<Longrightarrow>
   list_all (\<lambda>(n, g). P g) gs"
  by (induction vs f arbitrary: gs rule: collect.induct) (auto split: sum.splits)

lemma with_source_column_empty: "rows f = [] \<Longrightarrow> with_source_column f src n [] = []"
  by (simp add: with_source_column_def)

lemma candidates_total:
  assumes req: "set required_columns \<subseteq> set (columns f)"
    and d: "distinct (map fst (rows f))"
  shows "list_all (\<lambda>(n, v). \<exists>g. v f = Inr g \<and> (rows f = [] \<longrightarrow> rows g = []))
           (candidates :: (string \<times> ('a frame \<Rightarrow> error + 'a frame)) list)"
proof -
  have p: "\<exists>g. producto_of f = Inr g \<and> (rows f = [] \<longrightarrow> rows g = [])"
  proof (cases "''codigo_formato_producto'' \<in> set (columns f)")
    case True
    show ?thesis
      by (simp add: producto_of_present[OF req True d] clean_rows_empty with_source_column_empty)
  next
    case False
    show ?thesis
      by (simp add: producto_of_absent[OF req False] clean_rows_empty)
  qed
  have q: "\<exists>g. detalle_pedido_of f = Inr g \<and> (rows f = [] \<longrightarrow> rows g = [])"
  proof (cases "''id_promocion'' \<in> set (columns f)")
    case True
    show ?thesis
      by (simp add: detalle_pedido_of_present[OF req True d] clean_rows_empty
          with_source_column_empty)
  next
    case False
    show ?thesis
      by (simp add: detalle_pedido_of_absent[OF req False] clean_rows_empty)
  qed
  show ?thesis
    unfolding candidates_def
    by (simp add: p q tipo_documento_of_ok[OF req] canal_cliente_of_ok[OF req]
        tipo_pago_of_ok[OF req] cargo_trabajador_of_ok[OF req] marca_producto_of_ok[OF req]
        categoria_producto_of_ok[OF req] trabajador_of_ok[OF req] cliente_of_ok[OF req]
        pedido_of_ok[OF req] clean_rows_empty)
qed

lemma candidate_frames_total:
  assumes "set required_columns \<subseteq> set (columns f)" "distinct (map fst (rows f))"
  shows "\<exists>gs. candidate_frames f = Inr gs \<and> map fst gs = table_names
           \<and> (rows f = [] \<longrightarrow> list_all (\<lambda>(n, g). rows g = []) gs)"
proof -
  note t = candidates_total[OF assms]
  have "list_all (\<lambda>(n, v). \<exists>g. v f = Inr g)
          (candidates :: (string \<times> ('a frame \<Rightarrow> error + 'a frame)) list)"
    using t by (auto simp: list_all_iff)
  from collect_total[OF this] obtain gs where gs: "collect candidates f = Inr gs" by blast
  have n: "map fst gs = table_names"
    using collect_names[OF gs] by (simp add: candidates_def table_names_def)
  have e: "list_all (\<lambda>(n, g). rows g = []) gs" if "rows f = []"
  proof (rule collect_all[OF gs])
    show "list_all (\<lambda>(n, v). \<forall>g. v f = Inr g \<longrightarrow> rows g = [])
            (candidates :: (string \<times> ('a frame \<Rightarrow> error + 'a frame)) list)"
      using t that by (auto simp: list_all_iff)
  qed
  from gs n e show ?thesis by (auto simp: candidate_frames_def)
qed

lemma extract_succeeds:
  assumes "df < length h" "set required_columns \<subseteq> set (columns (h ! df))"
    and "distinct (map fst (rows (h ! df)))"
  shows "\<exists>tables h'. extract_table_data df h = Inr (tables, h')"
proof -
  from candidate_frames_total[OF assms(2,3)] obtain gs where
    "candidate_frames (h ! df) = Inr gs" by blast
  with extract_new(1)[OF assms(1)] show ?thesis
    by (cases "extract_table_data df h") (auto simp: tables_of_def)
qed

lemma candidate_lookup:
  assumes "df < length h" "map_of candidates n = Some v" "v (h ! df) = Inr g"
    and "set required_columns \<subseteq> set (columns (h ! df))" "distinct (map fst (rows (h ! df)))"
  shows "candidate n (extract_table_data df h) = Some g"
proof -
  from candidate_frames_total[OF assms(4,5)] obtain gs where
    gs: "collect candidates (h ! df) = Inr gs" by (auto simp: candidate_frames_def)
  from collect_lookup[OF gs assms(2)] assms(3) have "map_of gs n = Some g" by auto
  with extract_new(1)[OF assms(1)] gs show ?thesis
    by (simp add: candidate_def candidate_frames_def)
qed

lemma first_seen_subset: "set (first_seen seen rs) \<subseteq> set rs"
  by (induction seen rs rule: first_seen.induct) auto

lemma clean_rows_lengths: "(i, r) \<in> set (clean_rows f cs subs) \<Longrightarrow> length r = length cs"
proof -
  assume "(i, r) \<in> set (clean_rows f cs subs)"
  then have "(i, r) \<in> set (map (\<lambda>(i, r). (i, project (columns f) cs r)) (rows f))"
    using first_seen_subset[of "[]"] by (fastforce simp: clean_rows_def)
  then show ?thesis by (auto simp: project_def)
qed

lemma first_seen_dedup:
  "map snd (first_seen seen rs) = dedup (filter (\<lambda>r. r \<notin> set seen) (map snd rs))"
proof (induction seen rs rule: first_seen.induct)
  case (1 seen)
  then show ?case by simp
next
  case (2 seen i r rs)
  have "filter (\<lambda>y. y \<noteq> r) (filter (\<lambda>r. r \<notin> set seen) (map snd rs)) =
        filter (\<lambda>x. x \<notin> set (r # seen)) (map snd rs)"
    by (auto intro: filter_cong)
  with 2 show ?case by simp
qed

lemma clean_rows_reference:
  "map snd (clean_rows f cs [idc]) = reference_pipeline f cs idc"
proof -
  have "map snd (filter (\<lambda>(i, r). value_at cs idc r \<noteq> NaN)
          (map (\<lambda>(i, r). (i, project (columns f) cs r)) (rows f))) =
        filter (\<lambda>p. value_at cs idc p \<noteq> NaN)
          (map (\<lambda>(i, r). map (\<lambda>c. value_at (columns f) c r) cs) (rows f))"
    by (induction "rows f" arbitrary: f) (auto simp: project_def filter_map comp_def case_prod_beta)
  then show ?thesis
    by (simp add: clean_rows_def reference_pipeline_def first_seen_dedup)
qed

text \<open>  Where the code meets the pipeline of the specification: the projected cells of each
  candidate are the records of the pipeline, in its order, unless an optional source
  column is assigned to a candidate left without rows.\<close>

lemma take_projected:
  "map (\<lambda>(i, r). take (length cs) r) (clean_rows f cs [idc]) = reference_pipeline f cs idc"
proof -
  have "map (\<lambda>(i, r). take (length cs) r) (clean_rows f cs [idc]) =
        map snd (clean_rows f cs [idc])"
    using clean_rows_lengths[of _ _ f cs "[idc]"] by (intro map_cong) auto
  then show ?thesis by (simp only: clean_rows_reference)
qed

lemma take_extended:
  "map (\<lambda>(i, r). take (length cs) r) (map (\<lambda>(i, r). (i, r @ k i r)) (clean_rows f cs [idc])) =
   reference_pipeline f cs idc"
proof -
  have "map (\<lambda>(i, r). take (length cs) r) (map (\<lambda>(i, r). (i, r @ k i r)) (clean_rows f cs [idc])) =
        map snd (clean_rows f cs [idc])"
    using clean_rows_lengths[of _ _ f cs "[idc]"] by (auto simp: case_prod_beta)
  then show ?thesis by (simp only: clean_rows_reference)
qed

lemma take_extended_twice:
  "map (\<lambda>(i, r). take (length cs) r)
     (map (\<lambda>(i, r). (i, r @ [v]))
        (map (\<lambda>(i, r). (i, r @ k i r)) (clean_rows f cs [idc]))) =
   reference_pipeline f cs idc"
proof -
  have "map (\<lambda>(i, r). (i, r @ [v])) (map (\<lambda>(i, r). (i, r @ k i r)) (clean_rows f cs [idc])) =
        map (\<lambda>(i, r). (i, r @ (k i r @ [v]))) (clean_rows f cs [idc])"
    by (auto simp: case_prod_beta)
  then show ?thesis by (simp only: take_extended)
qed

lemma with_source_column_kept:
  "rs \<noteq> [] \<or> rows f = [] \<Longrightarrow>
   with_source_column f src n rs = map (\<lambda>(i, r). (i, r @ [at_label (source_column f src) i])) rs"
  by (auto simp: with_source_column_def)

lemma survivors: "clean_rows f cs [idc] \<noteq> [] \<longleftrightarrow> reference_pipeline f cs idc \<noteq> []"
  using clean_rows_reference[of f cs idc] by (metis map_is_Nil_conv)

lemma projected_rows_match_reference:
  assumes "df < length h" "set required_columns \<subseteq> set (columns (h ! df))"
    and "distinct (map fst (rows (h ! df)))"
    and "map_of projections n = Some cs"
    and "n = ''producto'' \<Longrightarrow> ''codigo_formato_producto'' \<in> set (columns (h ! df)) \<Longrightarrow>
         reference_pipeline (h ! df) cs (hd cs) \<noteq> [] \<or> rows (h ! df) = []"
    and "n = ''detalle_pedido'' \<Longrightarrow> ''id_promocion'' \<in> set (columns (h ! df)) \<Longrightarrow>
         reference_pipeline (h ! df) cs (hd cs) \<noteq> [] \<or> rows (h ! df) = []"
  shows "\<exists>g. candidate n (extract_table_data df h) = Some g
             \<and> map (\<lambda>(i, r). take (length cs) r) (rows g) = reference_pipeline (h ! df) cs (hd cs)"
proof -
  let ?f = "h ! df"
  note req = assms(2) and d = assms(3)
  note look = candidate_lookup[OF assms(1) _ _ req d]
  from assms(4) consider
    (tipo_documento) "n = ''tipo_documento''" "cs = [''id_tipo_documento'', ''nombre'', ''descripcion'']" |
    (canal_cliente) "n = ''canal_cliente''" "cs = [''id_canal_cliente'', ''nombre.1'', ''descripcion.1'']" |
    (tipo_pago) "n = ''tipo_pago''" "cs = [''id_tipo_pago'', ''nombre_tipo_pago'', ''descripcion.2'']" |
    (cargo_trabajador) "n = ''cargo_trabajador''" "cs = [''id_cargo_trabajador'', ''nombre.2'', ''descripcion.4'']" |
    (marca_producto) "n = ''marca_producto''" "cs = [''id_marca_producto'', ''nombre_marca'']" |
    (categoria_producto) "n = ''categoria_producto''" "cs = [''id_categoria_producto'', ''nombre_categoria'', ''descripcion.5'']" |
    (trabajador) "n = ''trabajador''" "cs = [''id_trabajador'', ''nombre trabajador'', ''correo'', ''telefono.1'',
             ''id_cargo_trabajador'']" |
    (cliente) "n = ''cliente''" "cs = [''id_cliente'', ''nombre_cliente'', ''numero_documento'', ''correo.1'',
             ''telefono.2'', ''direccion'', ''id_tipo_documento'', ''id_canal_cliente'']" |
    (producto) "n = ''producto''" "cs = [''id_producto'', ''descripcion.6'', ''precio'', ''id_marca_producto'',
             ''id_categoria_producto'']" |
    (pedido) "n = ''pedido''" "cs = [''id_pedido'', ''id_trabajador'', ''id_cliente'', ''id_tipo_pago'',
             ''fecha'', ''monto_total'']" |
    (detalle_pedido) "n = ''detalle_pedido''" "cs = [''id_detalle_pedido'', ''id_pedido'', ''id_producto'', ''cantidad'',
             ''precio_unitario'']"
    by (auto simp: projections_def split: if_splits)
  then show ?thesis
  proof cases
    case tipo_documento
    have m: "map_of candidates ''tipo_documento'' = Some tipo_documento_of" by (simp add: candidates_def)
    from look[OF m tipo_documento_of_ok[OF req]]
    have "\<exists>C. candidate n (extract_table_data df h) =
       Some \<lparr>columns = C, rows = clean_rows ?f cs [hd cs]\<rparr>"
      by (simp add: tipo_documento(1) tipo_documento(2))
    then obtain C where c: "candidate n (extract_table_data df h) =
       Some \<lparr>columns = C, rows = clean_rows ?f cs [hd cs]\<rparr>" by blast
    show ?thesis
      by (rule exI, rule conjI, rule c) (simp only: frame.select_convs take_projected)
  next
    case canal_cliente
    have m: "map_of candidates ''canal_cliente'' = Some canal_cliente_of" by (simp add: candidates_def)
    from look[OF m canal_cliente_of_ok[OF req]]
    have "\<exists>C. candidate n (extract_table_data df h) =
       Some \<lparr>columns = C, rows = clean_rows ?f cs [hd cs]\<rparr>"
      by (simp add: canal_cliente(1) canal_cliente(2))
    then obtain C where c: "candidate n (extract_table_data df h) =
       Some \<lparr>columns = C, rows = clean_rows ?f cs [hd cs]\<rparr>" by blast
    show ?thesis
      by (rule exI, rule conjI, rule c) (simp only: frame.select_convs take_projected)
  next
    case tipo_pago
    have m: "map_of candidates ''tipo_pago'' = Some tipo_pago_of" by (simp add: candidates_def)
    from look[OF m tipo_pago_of_ok[OF req]]
    have "\<exists>C. candidate n (extract_table_data df h) =
       Some \<lparr>columns = C, rows = clean_rows ?f cs [hd cs]\<rparr>"
      by (simp add: tipo_pago(1) tipo_pago(2))
    then obtain C where c: "candidate n (extract_table_data df h) =
       Some \<lparr>columns = C, rows = clean_rows ?f cs [hd cs]\<rparr>" by blast
    show ?thesis
      by (rule exI, rule conjI, rule c) (simp only: frame.select_convs take_projected)
  next
    case cargo_trabajador
    have m: "map_of candidates ''cargo_trabajador'' = Some cargo_trabajador_of" by (simp add: candidates_def)
    from look[OF m cargo_trabajador_of_ok[OF req]]
    have "\<exists>C. candidate n (extract_table_data df h) =
       Some \<lparr>columns = C, rows = clean_rows ?f cs [hd cs]\<rparr>"
      by (simp add: cargo_trabajador(1) cargo_trabajador(2))
    then obtain C where c: "candidate n (extract_table_data df h) =
       Some \<lparr>columns = C, rows = clean_rows ?f cs [hd cs]\<rparr>" by blast
    show ?thesis
      by (rule exI, rule conjI, rule c) (simp only: frame.select_convs take_projected)
  next
    case marca_producto
    have m: "map_of candidates ''marca_producto'' = Some marca_producto_of" by (simp add: candidates_def)
    from look[OF m marca_producto_of_ok[OF req]]
    have "\<exists>C. candidate n (extract_table_data df h) =
       Some \<lparr>columns = C, rows = map (\<lambda>(i, r). (i, r @ [value_at cs ''nombre_marca'' r])) (clean_rows ?f cs [hd cs])\<rparr>"
      by (simp add: marca_producto(1) marca_producto(2))
    then obtain C where c: "candidate n (extract_table_data df h) =
       Some \<lparr>columns = C, rows = map (\<lambda>(i, r). (i, r @ [value_at cs ''nombre_marca'' r])) (clean_rows ?f cs [hd cs])\<rparr>" by blast
    show ?thesis
      by (rule exI, rule conjI, rule c) (simp only: frame.select_convs take_extended)
  next
    case categoria_producto
    have m: "map_of candidates ''categoria_producto'' = Some categoria_producto_of" by (simp add: candidates_def)
    from look[OF m categoria_producto_of_ok[OF req]]
    have "\<exists>C. candidate n (extract_table_data df h) =
       Some \<lparr>columns = C, rows = clean_rows ?f cs [hd cs]\<rparr>"
      by (simp add: categoria_producto(1) categoria_producto(2))
    then obtain C where c: "candidate n (extract_table_data df h) =
       Some \<lparr>columns = C, rows = clean_rows ?f cs [hd cs]\<rparr>" by blast
    show ?thesis
      by (rule exI, rule conjI, rule c) (simp only: frame.select_convs take_projected)
  next
    case trabajador
    have m: "map_of candidates ''trabajador'' = Some trabajador_of" by (simp add: candidates_def)
    from look[OF m trabajador_of_ok[OF req]]
    have "\<exists>C. candidate n (extract_table_data df h) =
       Some \<lparr>columns = C, rows = map (\<lambda>(i, r). (i, r @ [Str []])) (clean_rows ?f cs [hd cs])\<rparr>"
      by (simp add: trabajador(1) trabajador(2))
    then obtain C where c: "candidate n (extract_table_data df h) =
       Some \<lparr>columns = C, rows = map (\<lambda>(i, r). (i, r @ [Str []])) (clean_rows ?f cs [hd cs])\<rparr>" by blast
    show ?thesis
      by (rule exI, rule conjI, rule c) (simp only: frame.select_convs take_extended)
  next
    case cliente
    have m: "map_of candidates ''cliente'' = Some cliente_of" by (simp add: candidates_def)
    from look[OF m cliente_of_ok[OF req]]
    have "\<exists>C. candidate n (extract_table_data df h) =
       Some \<lparr>columns = C, rows = clean_rows ?f cs [hd cs]\<rparr>"
      by (simp add: cliente(1) cliente(2))
    then obtain C where c: "candidate n (extract_table_data df h) =
       Some \<lparr>columns = C, rows = clean_rows ?f cs [hd cs]\<rparr>" by blast
    show ?thesis
      by (rule exI, rule conjI, rule c) (simp only: frame.select_convs take_projected)
  next
    case producto
    have m: "map_of candidates ''producto'' = Some producto_of" by (simp add: candidates_def)
    show ?thesis
    proof (cases "''codigo_formato_producto'' \<in> set (columns ?f)")
      case True
      from assms(5)[OF producto(1) True]
      have ne: "clean_rows ?f cs [hd cs] \<noteq> [] \<or> rows ?f = []" by (simp only: survivors)
      from look[OF m producto_of_present[OF req True d]]
      have "\<exists>C. candidate n (extract_table_data df h) =
         Some \<lparr>columns = C, rows = with_source_column ?f ''codigo_formato_producto'' (length cs) (clean_rows ?f cs [hd cs])\<rparr>"
        by (simp add: producto(1) producto(2) eval_nat_numeral)
      then obtain C where c: "candidate n (extract_table_data df h) =
         Some \<lparr>columns = C, rows = with_source_column ?f ''codigo_formato_producto'' (length cs) (clean_rows ?f cs [hd cs])\<rparr>" by blast
      show ?thesis
        by (rule exI, rule conjI, rule c) (simp only: frame.select_convs with_source_column_kept[OF ne] take_extended)
    next
      case False
      from look[OF m producto_of_absent[OF req False]]
      have "\<exists>C. candidate n (extract_table_data df h) =
         Some \<lparr>columns = C, rows = clean_rows ?f cs [hd cs]\<rparr>"
        by (simp add: producto(1) producto(2))
      then obtain C where c: "candidate n (extract_table_data df h) =
         Some \<lparr>columns = C, rows = clean_rows ?f cs [hd cs]\<rparr>" by blast
      show ?thesis
        by (rule exI, rule conjI, rule c) (simp only: frame.select_convs take_projected)
    qed
  next
    case pedido
    have m: "map_of candidates ''pedido'' = Some pedido_of" by (simp add: candidates_def)
    from look[OF m pedido_of_ok[OF req]]
    have "\<exists>C. candidate n (extract_table_data df h) =
       Some \<lparr>columns = C, rows = clean_rows ?f cs [hd cs]\<rparr>"
      by (simp add: pedido(1) pedido(2))
    then obtain C where c: "candidate n (extract_table_data df h) =
       Some \<lparr>columns = C, rows = clean_rows ?f cs [hd cs]\<rparr>" by blast
    show ?thesis
      by (rule exI, rule conjI, rule c) (simp only: frame.select_convs take_projected)
  next
    case detalle_pedido
    have m: "map_of candidates ''detalle_pedido'' = Some detalle_pedido_of" by (simp add: candidates_def)
    show ?thesis
    proof (cases "''id_promocion'' \<in> set (columns ?f)")
      case True
      from assms(6)[OF detalle_pedido(1) True]
      have ne: "clean_rows ?f cs [hd cs] \<noteq> [] \<or> rows ?f = []" by (simp only: survivors)
      from look[OF m detalle_pedido_of_present[OF req True d]]
      have "\<exists>C. candidate n (extract_table_data df h) =
         Some \<lparr>columns = C, rows = map (\<lambda>(i, r). (i, r @ [Num 0])) (with_source_column ?f ''id_promocion'' (length cs) (clean_rows ?f cs [hd cs]))\<rparr>"
        by (simp add: detalle_pedido(1) detalle_pedido(2) eval_nat_numeral)
      then obtain C where c: "candidate n (extract_table_data df h) =
         Some \<lparr>columns = C, rows = map (\<lambda>(i, r). (i, r @ [Num 0])) (with_source_column ?f ''id_promocion'' (length cs) (clean_rows ?f cs [hd cs]))\<rparr>" by blast
      show ?thesis
        by (rule exI, rule conjI, rule c) (simp only: frame.select_convs with_source_column_kept[OF ne] take_extended_twice)
    next
      case False
      from look[OF m detalle_pedido_of_absent[OF req False]]
      have "\<exists>C. candidate n (extract_table_data df h) =
         Some \<lparr>columns = C, rows = map (\<lambda>(i, r). (i, r @ [Num 0])) (clean_rows ?f cs [hd cs])\<rparr>"
        by (simp add: detalle_pedido(1) detalle_pedido(2))
      then obtain C where c: "candidate n (extract_table_data df h) =
         Some \<lparr>columns = C, rows = map (\<lambda>(i, r). (i, r @ [Num 0])) (clean_rows ?f cs [hd cs])\<rparr>" by blast
      show ?thesis
        by (rule exI, rule conjI, rule c) (simp only: frame.select_convs take_extended)
    qed
  qed
qed

subsection \<open>The extraction\<close>

text \<open>  C1, at a failing input. The sheet has every required column and the optional column
  \<^verbatim>\<open>codigo_formato_producto\<close>; its one row has no \<^verbatim>\<open>id_producto\<close>. The pipeline of the
  specification gives no record for \<^verbatim>\<open>producto\<close>. The code drops the row as well, and
  then assigns the optional column to the frame left without rows, which makes pandas take
  over the index of the source: the candidate for \<^verbatim>\<open>producto\<close> has the row again, with
  every projected column missing.\<close>

theorem producto_keeps_rows_without_id:
  "candidate ''producto''
     (extract_table_data 0
        [\<lparr>columns = required_columns @ [''codigo_formato_producto''],
          rows = [(0, replicate 36 NaN @ [Str ''F1''])]\<rparr> :: unit frame]) =
     Some \<lparr>columns = [''id_producto'', ''descripcion'', ''precio'', ''id_marca_producto'',
                       ''id_categoria_producto'', ''id_formato_producto''],
           rows = [(0, [NaN, NaN, NaN, NaN, NaN, Str ''F1''])]\<rparr>
   \<and> reference_pipeline
       (\<lparr>columns = required_columns @ [''codigo_formato_producto''],
         rows = [(0, replicate 36 NaN @ [Str ''F1''])]\<rparr> :: unit frame)
       [''id_producto'', ''descripcion.6'', ''precio'', ''id_marca_producto'',
        ''id_categoria_producto'']
       ''id_producto'' = []"
  by code_simp

text \<open>  C4, as claimed, fails: on a sheet without the column \<^verbatim>\<open>id_promocion\<close> the candidate
  for \<^verbatim>\<open>detalle_pedido\<close> has a row and no column \<^verbatim>\<open>id_promocion\<close> at all, filled
  with a default or otherwise.\<close>

theorem absent_promotion_column_not_filled:
  "''id_promocion'' \<notin> set required_columns
   \<and> candidate ''detalle_pedido''
       (extract_table_data 0
          [\<lparr>columns = required_columns, rows = [(0, replicate 36 (Num 1))]\<rparr> :: unit frame]) =
     Some \<lparr>columns = [''id_detalle_pedido'', ''id_pedido'', ''id_producto'', ''cantidad'',
                       ''precio_unitario'', ''descuento''],
           rows = [(0, [Num 1, Num 1, Num 1, Num 1, Num 1, Num 0])]\<rparr>"
  by code_simp

text \<open>  C4, amended: for a source frame with the required columns and no repeated row label, the
  extraction returns without raising, and an optional column that the source lacks is
  left out of the candidate: without \<^verbatim>\<open>id_promocion\<close> the candidate for
  \<^verbatim>\<open>detalle_pedido\<close> has its five projected columns and \<^verbatim>\<open>descuento\<close>, which is 0 in
  every row; without \<^verbatim>\<open>codigo_formato_producto\<close> the candidate for \<^verbatim>\<open>producto\<close> has
  its five projected columns only.\<close>

theorem absent_optional_column_is_omitted:
  assumes "df < length h" "set required_columns \<subseteq> set (columns (h ! df))"
    and "distinct (map fst (rows (h ! df)))"
  shows "(''id_promocion'' \<notin> set (columns (h ! df)) \<longrightarrow>
            (\<exists>g. candidate ''detalle_pedido'' (extract_table_data df h) = Some g
               \<and> columns g = [''id_detalle_pedido'', ''id_pedido'', ''id_producto'',
                               ''cantidad'', ''precio_unitario'', ''descuento'']
               \<and> list_all (\<lambda>(i, r). value_at (columns g) ''descuento'' r = Num 0) (rows g)))
       \<and> (''codigo_formato_producto'' \<notin> set (columns (h ! df)) \<longrightarrow>
            (\<exists>g. candidate ''producto'' (extract_table_data df h) = Some g
               \<and> columns g = [''id_producto'', ''descripcion'', ''precio'',
                               ''id_marca_producto'', ''id_categoria_producto'']))"
proof (intro conjI impI)
  assume a: "''id_promocion'' \<notin> set (columns (h ! df))"
  let ?cs = "[''id_detalle_pedido'', ''id_pedido'', ''id_producto'', ''cantidad'',
              ''precio_unitario'']"
  let ?R = "clean_rows (h ! df) ?cs [''id_detalle_pedido'']"
  let ?g = "\<lparr>columns = ?cs @ [''descuento''], rows = map (\<lambda>(i, r). (i, r @ [Num 0])) ?R\<rparr>"
  have m: "map_of candidates ''detalle_pedido'' = Some detalle_pedido_of"
    by (simp add: candidates_def)
  have v: "detalle_pedido_of (h ! df) = Inr ?g"
    using detalle_pedido_of_absent[OF assms(2) a] by simp
  have t: "candidate ''detalle_pedido'' (extract_table_data df h) = Some ?g"
    by (rule candidate_lookup[OF assms(1) m v assms(2,3)])
  have z: "value_at (?cs @ [''descuento'']) ''descuento'' (r @ [Num 0]) = Num 0"
    if "length r = length ?cs" for r :: "'a cell list"
    using that by (simp add: value_at_def cell_at_def nth_append)
  have "list_all (\<lambda>(i, r). value_at (columns ?g) ''descuento'' r = Num 0) (rows ?g)"
    using clean_rows_lengths[of _ _ "h ! df" ?cs "[''id_detalle_pedido'']"] z
    by (auto simp: list_all_iff simp del: pos.simps)
  with t show "\<exists>g. candidate ''detalle_pedido'' (extract_table_data df h) = Some g
               \<and> columns g = [''id_detalle_pedido'', ''id_pedido'', ''id_producto'',
                               ''cantidad'', ''precio_unitario'', ''descuento'']
               \<and> list_all (\<lambda>(i, r). value_at (columns g) ''descuento'' r = Num 0) (rows g)"
    by (intro exI[of _ ?g]) simp
next
  assume a: "''codigo_formato_producto'' \<notin> set (columns (h ! df))"
  have m: "map_of candidates ''producto'' = Some producto_of"
    by (simp add: candidates_def)
  from candidate_lookup[OF assms(1) m producto_of_absent[OF assms(2) a] assms(2,3)]
  show "\<exists>g. candidate ''producto'' (extract_table_data df h) = Some g
               \<and> columns g = [''id_producto'', ''descripcion'', ''precio'',
                               ''id_marca_producto'', ''id_categoria_producto'']"
    by simp
qed

theorem absent_optional_column_is_omitted_witness:
  "(\<exists>g. candidate ''detalle_pedido''
          (extract_table_data 0
             [\<lparr>columns = required_columns, rows = [(0, replicate 36 (Num 1))]\<rparr> :: unit frame]) =
          Some g
        \<and> columns g = [''id_detalle_pedido'', ''id_pedido'', ''id_producto'', ''cantidad'',
                        ''precio_unitario'', ''descuento''])
   \<and> (\<exists>g. candidate ''producto''
          (extract_table_data 0
             [\<lparr>columns = required_columns, rows = [(0, replicate 36 (Num 1))]\<rparr> :: unit frame]) =
          Some g
        \<and> columns g = [''id_producto'', ''descripcion'', ''precio'', ''id_marca_producto'',
                        ''id_categoria_producto''])"
proof -
  let ?sheet = "\<lparr>columns = required_columns, rows = [(0, replicate 36 (Num 1))]\<rparr> :: unit frame"
  have a: "''id_promocion'' \<notin> set (columns ([?sheet] ! 0))"
    "''codigo_formato_producto'' \<notin> set (columns ([?sheet] ! 0))"
    by (simp_all add: required_columns_def)
  have b: "0 < length [?sheet]" "set required_columns \<subseteq> set (columns ([?sheet] ! 0))"
    "distinct (map fst (rows ([?sheet] ! 0)))"
    by simp_all
  from absent_optional_column_is_omitted[OF b] a show ?thesis by blast
qed

text \<open>  C6: a second run of the extraction on the same source frame, on the heap the first run
  left, returns as well, and its tables hold the same frames under the same names in the
  same order: the same columns, rows, labels and values. The frames of the first run are
  still what they were.\<close>

theorem extract_deterministic:
  assumes "df < length h" "extract_table_data df h = Inr (tables, h')"
  shows "\<exists>tables2 h''.
           extract_table_data df h' = Inr (tables2, h'')
           \<and> map (\<lambda>(name, t). (name, h'' ! t)) tables2 = map (\<lambda>(name, t). (name, h' ! t)) tables
           \<and> map (\<lambda>(name, t). (name, h'' ! t)) tables = map (\<lambda>(name, t). (name, h' ! t)) tables"
proof -
  from extract_new(2)[OF assms(1)] assms(2) obtain new where
    h': "h' = h @ new" and fr: "list_all (\<lambda>(name, t). length h \<le> t \<and> t < length h') tables"
    by (auto simp: fresh_tables_def)
  have df': "df < length h'" using h' assms(1) by simp
  have same: "h' ! df = h ! df" using h' assms(1) by (simp add: nth_append)
  have first: "candidate_frames (h ! df) = Inr (map (\<lambda>(name, t). (name, h' ! t)) tables)"
    using extract_new(1)[OF assms(1)] assms(2) by (simp add: tables_of_def)
  have second: "tables_of (extract_table_data df h') = candidate_frames (h ! df)"
    using extract_new(1)[OF df'] same by simp
  then obtain tables2 h'' where r: "extract_table_data df h' = Inr (tables2, h'')"
    using first by (cases "extract_table_data df h'") (auto simp: tables_of_def)
  with first second have eq: "map (\<lambda>(name, t). (name, h'' ! t)) tables2 =
      map (\<lambda>(name, t). (name, h' ! t)) tables"
    by (simp add: tables_of_def)
  from extract_new(2)[OF df'] r obtain new2 where h'': "h'' = h' @ new2"
    by (auto simp: fresh_tables_def)
  have "map (\<lambda>(name, t). (name, h'' ! t)) tables = map (\<lambda>(name, t). (name, h' ! t)) tables"
    using fr h'' by (auto simp: list_all_iff nth_append)
  with r eq show ?thesis by blast
qed

theorem extract_deterministic_witness:
  "\<exists>tables h' tables2 h''.
     extract_table_data 0
       [\<lparr>columns = required_columns, rows = [(0, replicate 36 (Num 1))]\<rparr> :: unit frame] =
       Inr (tables, h')
     \<and> extract_table_data 0 h' = Inr (tables2, h'')
     \<and> map (\<lambda>(name, t). (name, h'' ! t)) tables2 = map (\<lambda>(name, t). (name, h' ! t)) tables"
proof -
  let ?sheet = "\<lparr>columns = required_columns, rows = [(0, replicate 36 (Num 1))]\<rparr> :: unit frame"
  have "\<exists>tables h'. extract_table_data 0 [?sheet] = Inr (tables, h')"
    by (rule extract_succeeds) simp_all
  then obtain tables h' where r: "extract_table_data 0 [?sheet] = Inr (tables, h')" by blast
  have "0 < length [?sheet]" by simp
  from extract_deterministic[OF this r] r show ?thesis by blast
qed

text \<open>  C9: when the extraction returns, the source frame is what it was before the call, as is
  every other frame that existed then; every table is a frame created during the call,
  at an address different from the source's.\<close>

theorem extract_keeps_source:
  assumes "df < length h" "extract_table_data df h = Inr (tables, h')"
  shows "h' ! df = h ! df \<and> take (length h) h' = h
         \<and> list_all (\<lambda>(name, t). t \<noteq> df \<and> length h \<le> t \<and> t < length h') tables"
proof -
  from extract_new(2)[OF assms(1)] assms(2) obtain new where
    h': "h' = h @ new" and fr: "list_all (\<lambda>(name, t). length h \<le> t \<and> t < length h') tables"
    by (auto simp: fresh_tables_def)
  have "h' ! df = h ! df" using h' assms(1) by (simp add: nth_append)
  moreover have "take (length h) h' = h" using h' by simp
  moreover have "list_all (\<lambda>(name, t). t \<noteq> df \<and> length h \<le> t \<and> t < length h') tables"
    using fr assms(1) by (auto simp: list_all_iff)
  ultimately show ?thesis by simp
qed

theorem extract_keeps_source_witness:
  "\<exists>tables h'.
     extract_table_data 0
       [\<lparr>columns = required_columns, rows = [(0, replicate 36 (Num 1))]\<rparr> :: unit frame] =
       Inr (tables, h')
     \<and> h' ! 0 = \<lparr>columns = required_columns, rows = [(0, replicate 36 (Num 1))]\<rparr>
     \<and> list_all (\<lambda>(name, t). t \<noteq> 0) tables"
proof -
  let ?sheet = "\<lparr>columns = required_columns, rows = [(0, replicate 36 (Num 1))]\<rparr> :: unit frame"
  have "\<exists>tables h'. extract_table_data 0 [?sheet] = Inr (tables, h')"
    by (rule extract_succeeds) simp_all
  then obtain tables h' where r: "extract_table_data 0 [?sheet] = Inr (tables, h')" by blast
  have "0 < length [?sheet]" by simp
  from extract_keeps_source[OF this r] r show ?thesis
    by (auto simp: list_all_iff)
qed

text \<open>  C10: for a source frame with the required columns and no repeated row label, the
  extraction returns a dictionary with exactly the eleven table names as keys, in this
  order, whatever the rows hold; for a source without rows every table is without rows.\<close>

theorem extract_returns_eleven_tables:
  assumes "df < length h" "set required_columns \<subseteq> set (columns (h ! df))"
    and "distinct (map fst (rows (h ! df)))"
  shows "\<exists>tables h'.
           extract_table_data df h = Inr (tables, h')
           \<and> map fst tables =
               [''tipo_documento'', ''canal_cliente'', ''tipo_pago'', ''cargo_trabajador'',
                ''marca_producto'', ''categoria_producto'', ''trabajador'', ''cliente'',
                ''producto'', ''pedido'', ''detalle_pedido'']
           \<and> (rows (h ! df) = [] \<longrightarrow> list_all (\<lambda>(name, t). rows (h' ! t) = []) tables)"
proof -
  from candidate_frames_total[OF assms(2,3)] obtain gs where
    gs: "candidate_frames (h ! df) = Inr gs" and n: "map fst gs = table_names"
    and e: "rows (h ! df) = [] \<longrightarrow> list_all (\<lambda>(n, g). rows g = []) gs"
    by blast
  from extract_new(1)[OF assms(1)] gs obtain tables h' where
    r: "extract_table_data df h = Inr (tables, h')"
    and m: "map (\<lambda>(name, t). (name, h' ! t)) tables = gs"
    by (cases "extract_table_data df h") (auto simp: tables_of_def)
  have "map fst tables = map fst gs"
    using m by (auto simp: case_prod_beta comp_def)
  then have names: "map fst tables = table_names" using n by simp
  have "list_all (\<lambda>(name, t). rows (h' ! t) = []) tables" if "rows (h ! df) = []"
    using e that m by (auto simp: list_all_iff)
  with r names show ?thesis by (simp add: table_names_def)
qed

theorem extract_returns_eleven_tables_witness:
  "\<exists>tables h'.
     extract_table_data 0
       [\<lparr>columns = required_columns, rows = [(0, replicate 36 (Num 1))]\<rparr> :: unit frame] =
       Inr (tables, h')
     \<and> map fst tables =
         [''tipo_documento'', ''canal_cliente'', ''tipo_pago'', ''cargo_trabajador'',
          ''marca_producto'', ''categoria_producto'', ''trabajador'', ''cliente'',
          ''producto'', ''pedido'', ''detalle_pedido'']"
  using extract_returns_eleven_tables
    [of 0 "[\<lparr>columns = required_columns, rows = [(0, replicate 36 (Num 1))]\<rparr> :: unit frame]"]
  by auto

end
